theory Spec2Isabelle
  imports Complex_Main "HOL-Library.AList" "HOL-Library.Log_Nat"
begin

section \<open>Shared data model (types.ts)\<close>

text \<open>
  \<^verbatim>\<open>source: { nodeId: string; portId?: string }\<close> is a reference to a port; an
  omitted \<open>portId\<close> is \<open>None\<close>.  A \<open>FlowConnection\<close> carries the fields the
  reconciler reads (the opaque \<open>data\<close> payload is left out); optional fields are
  options.
\<close>

record PortRef =
  nodeId :: string
  portId :: "string option"

record DraftConnection =
  source :: PortRef
  target :: PortRef

record FlowConnection =
  conn_id :: string
  conn_source :: PortRef
  conn_target :: PortRef
  conn_label :: "string option"
  conn_className :: "string option"
  conn_editable :: "bool option"

record CanvasSelection =
  nodes :: "string list"
  connections :: "string list"

section \<open>Endpoint identities\<close>

text \<open>
  \<^verbatim>\<open>const DEFAULT_PORT_ID = 'default';\<close>
  \<^verbatim>\<open>const getEndpointUuid = (nodeId: string, portId?: string) => `${nodeId}:${portId ?? DEFAULT_PORT_ID}`;\<close>
\<close>

definition DEFAULT_PORT_ID :: string where
  "DEFAULT_PORT_ID = ''default''"

definition effectivePort :: "string option \<Rightarrow> string" where
  "effectivePort port = (case port of None \<Rightarrow> DEFAULT_PORT_ID | Some p \<Rightarrow> p)"

definition getEndpointUuid :: "string \<Rightarrow> string option \<Rightarrow> string" where
  "getEndpointUuid n port = n @ '':'' @ effectivePort port"

section \<open>Insertion-ordered sets and uniqueList\<close>

text \<open>
  A JavaScript \<open>Set\<close> iterates in insertion order and ignores the insertion of a
  member it already has.  It is modelled by the list of its members in that order.
  \<^verbatim>\<open>const uniqueList = (values: string[]) => Array.from(new Set(values));\<close>
\<close>

definition Set_add :: "'a \<Rightarrow> 'a list \<Rightarrow> 'a list" where
  "Set_add x s = (if x \<in> set s then s else s @ [x])"

definition Set_delete :: "'a \<Rightarrow> 'a list \<Rightarrow> 'a list" where
  "Set_delete x s = removeAll x s"

definition Set_has :: "'a list \<Rightarrow> 'a \<Rightarrow> bool" where
  "Set_has s x = (x \<in> set s)"

definition new_Set :: "'a list \<Rightarrow> 'a list" where
  "new_Set values = fold Set_add values []"

definition Array_from :: "'a list \<Rightarrow> 'a list" where
  "Array_from s = s"

definition uniqueList :: "string list \<Rightarrow> string list" where
  "uniqueList values = Array_from (new_Set values)"

section \<open>Selection manager (useSelectionManager.ts, FlowCanvas)\<close>

text \<open>
  The inputs of the hook that matter for selection.  \<open>selectedNodes\<close> and
  \<open>selectedConnections\<close> are the optional controlled sets (\<open>None\<close> is
  \<open>undefined\<close>).  The refs \<open>selectionRef\<close>, \<open>allowMultiSelectRef\<close> and
  \<open>emitSelectionRef\<close> are read as holding the values of the current render.
\<close>

record SelectionProps =
  selectedNodes :: "string list option"
  selectedConnections :: "string list option"
  allowMultiSelect :: bool

record MouseEvent =
  metaKey :: bool
  ctrlKey :: bool
  shiftKey :: bool

definition initialSelection :: CanvasSelection where
  "initialSelection = \<lparr>nodes = [], connections = []\<rparr>"

text \<open>
  \<^verbatim>\<open>nodes: selectedNodes ?? internalSelection.nodes,\<close>
  \<^verbatim>\<open>connections: selectedConnections ?? internalSelection.connections\<close>
\<close>

definition selection :: "SelectionProps \<Rightarrow> CanvasSelection \<Rightarrow> CanvasSelection" where
  "selection p internal =
     \<lparr>nodes = (case selectedNodes p of Some v \<Rightarrow> v | None \<Rightarrow> nodes internal),
      connections = (case selectedConnections p of Some v \<Rightarrow> v | None \<Rightarrow> connections internal)\<rparr>"

text \<open>
  \<open>emitSelection\<close> returns the new internal state (the result of the
  \<open>setInternalSelection\<close> updater applied to \<open>previous\<close>) and \<open>finalSelection\<close>,
  the value handed to \<open>onSelectionChange\<close>.
\<close>

definition emitSelection ::
  "SelectionProps \<Rightarrow> string list \<Rightarrow> string list \<Rightarrow> CanvasSelection
     \<Rightarrow> CanvasSelection \<times> CanvasSelection" where
  "emitSelection p nextNodes nextConnections previous =
     (\<lparr>nodes = (if selectedNodes p = None then nextNodes else nodes previous),
       connections = (if selectedConnections p = None then nextConnections else connections previous)\<rparr>,
      \<lparr>nodes = (case selectedNodes p of Some v \<Rightarrow> v | None \<Rightarrow> nextNodes),
       connections = (case selectedConnections p of Some v \<Rightarrow> v | None \<Rightarrow> nextConnections)\<rparr>)"

definition modifierHeld :: "MouseEvent \<Rightarrow> bool" where
  "modifierHeld ev = (metaKey ev \<or> ctrlKey ev \<or> shiftKey ev)"

definition updateNodeSelection ::
  "SelectionProps \<Rightarrow> string \<Rightarrow> MouseEvent \<Rightarrow> CanvasSelection
     \<Rightarrow> CanvasSelection \<times> CanvasSelection" where
  "updateNodeSelection p n ev internal =
     (let multi = (allowMultiSelect p \<and> modifierHeld ev);
          currentNodes = new_Set (nodes (selection p internal));
          nextNodes = (if multi
                       then Array_from (if Set_has currentNodes n
                                        then Set_delete n currentNodes
                                        else Set_add n currentNodes)
                       else [n]);
          nextConnections = (if multi then connections (selection p internal) else [])
      in emitSelection p (uniqueList nextNodes) (uniqueList nextConnections) internal)"

text \<open>
  The click handler bound to a connection by \<open>attachConnectionHandlers\<close>; it
  returns at once when the engine passes no original event.
\<close>

definition connectionClick ::
  "SelectionProps \<Rightarrow> string \<Rightarrow> MouseEvent option \<Rightarrow> CanvasSelection
     \<Rightarrow> CanvasSelection \<times> CanvasSelection option" where
  "connectionClick p c originalEvent internal =
     (case originalEvent of
        None \<Rightarrow> (internal, None)
      | Some ev \<Rightarrow>
          (let multi = (allowMultiSelect p \<and> modifierHeld ev);
               currentConnections = new_Set (connections (selection p internal));
               currentConnections' =
                 (if multi
                  then (if Set_has currentConnections c
                        then Set_delete c currentConnections
                        else Set_add c currentConnections)
                  else Set_add c []);
               nextConnections = Array_from currentConnections';
               nextNodes = (if multi then nodes (selection p internal) else []);
               r = emitSelection p (uniqueList nextNodes) (uniqueList nextConnections) internal
           in (fst r, Some (snd r))))"

definition clearSelection ::
  "SelectionProps \<Rightarrow> CanvasSelection \<Rightarrow> CanvasSelection \<times> CanvasSelection" where
  "clearSelection p internal = emitSelection p [] [] internal"

text \<open>
  \<open>handleCanvasClick\<close>: a click whose target lies inside a node, a port or a
  connection delete button is ignored; any other click clears the selection.
\<close>

definition handleCanvasClick ::
  "SelectionProps \<Rightarrow> bool \<Rightarrow> CanvasSelection \<Rightarrow> CanvasSelection \<times> CanvasSelection option" where
  "handleCanvasClick p insideNodePortOrDelete internal =
     (if insideNodePortOrDelete then (internal, None)
      else (let r = clearSelection p internal in (fst r, Some (snd r))))"

datatype Click =
  NodeClick string MouseEvent
| ConnectionClick string "MouseEvent option"
| CanvasClick bool

text \<open>
  One internal selection transition: the new internal state and the emitted
  notification, if any.
\<close>

fun transition ::
  "SelectionProps \<Rightarrow> Click \<Rightarrow> CanvasSelection \<Rightarrow> CanvasSelection \<times> CanvasSelection option" where
  "transition p (NodeClick n ev) internal =
     (let r = updateNodeSelection p n ev internal in (fst r, Some (snd r)))"
| "transition p (ConnectionClick c ev) internal = connectionClick p c ev internal"
| "transition p (CanvasClick inside) internal = handleCanvasClick p inside internal"

text \<open>
  A sequence of clicks, each arriving under the props of its render.  The log
  pairs every emitted notification with the props it was emitted under.
\<close>

fun run ::
  "(SelectionProps \<times> Click) list \<Rightarrow> CanvasSelection
     \<Rightarrow> (SelectionProps \<times> CanvasSelection) list
     \<Rightarrow> CanvasSelection \<times> (SelectionProps \<times> CanvasSelection) list" where
  "run [] internal emitted = (internal, emitted)"
| "run ((p, c) # rest) internal emitted =
     (case transition p c internal of
        (internal', None) \<Rightarrow> run rest internal' emitted
      | (internal', Some e) \<Rightarrow> run rest internal' (emitted @ [(p, e)]))"

section \<open>Pan and zoom (usePanZoom, FlowCanvas)\<close>

text \<open>
  The wheel gesture is modelled over the real numbers: its property is stated
  up to floating rounding, and the arithmetic below is the exact arithmetic
  that the IEEE operations of the source approximate.  The zoom operations of
  the imperative handle are modelled in binary64 in the section after this one.
  \<open>instanceZoom\<close> is the zoom held by the engine instance, \<open>None\<close> while
  \<open>instanceRef.current\<close> is null.  \<open>panRef\<close> mirrors \<open>pan\<close> and is not kept
  apart.
\<close>

record ZoomProps =
  minZoom :: real
  maxZoom :: real
  zoomStep :: real

record PanZoom =
  zoomState :: real
  zoomRef :: real
  pan :: "real \<times> real"
  instanceZoom :: "real option"

text \<open>\<^verbatim>\<open>(value: number) => Math.min(maxZoom, Math.max(minZoom, value))\<close>\<close>

definition clampZoom :: "ZoomProps \<Rightarrow> real \<Rightarrow> real" where
  "clampZoom p v = min (maxZoom p) (max (minZoom p) v)"

text \<open>
  \<open>setZoomInternal\<close> stores the clamped value in the state and in the ref,
  pushes it to the engine and returns it.
\<close>

definition setZoomInternal :: "ZoomProps \<Rightarrow> real \<Rightarrow> PanZoom \<Rightarrow> real \<times> PanZoom" where
  "setZoomInternal p v st =
     (let clamped = clampZoom p v
      in (clamped,
          st\<lparr>zoomState := (if zoomState st = clamped then zoomState st else clamped),
             zoomRef := clamped,
             instanceZoom := (case instanceZoom st of None \<Rightarrow> None | Some _ \<Rightarrow> Some clamped)\<rparr>))"



record WheelEvent =
  clientX :: real
  clientY :: real
  deltaY :: real
  wheel_ctrlKey :: bool
  wheel_metaKey :: bool

text \<open>
  \<open>handleWheel\<close>; \<open>canvasRect\<close> is (left, top) of the canvas bounding
  rectangle, \<open>None\<close> while \<open>canvasRef.current\<close> is null.
\<close>

definition handleWheel ::
  "ZoomProps \<Rightarrow> (real \<times> real) option \<Rightarrow> WheelEvent \<Rightarrow> PanZoom \<Rightarrow> PanZoom" where
  "handleWheel p canvasRect ev st =
     (case canvasRect of
        None \<Rightarrow> st
      | Some (rleft, rtop) \<Rightarrow>
          if \<not> (wheel_ctrlKey ev \<or> wheel_metaKey ev) then st
          else
            (let pointerX = clientX ev - rleft;
                 pointerY = clientY ev - rtop;
                 graphX = (pointerX - fst (pan st)) / zoomRef st;
                 graphY = (pointerY - snd (pan st)) / zoomRef st;
                 direction = (if deltaY ev > 0 then - 1 else 1);
                 r = setZoomInternal p (zoomRef st + direction * zoomStep p) st;
                 nextZoom = fst r;
                 nextPanX = pointerX - graphX * nextZoom;
                 nextPanY = pointerY - graphY * nextZoom
             in (snd r)\<lparr>pan := (nextPanX, nextPanY)\<rparr>))"


section \<open>Binary64 numbers\<close>

text \<open>
  A JavaScript number is an IEEE 754 binary64 value: \<open>NaN\<close>, an infinity with
  its sign, or a finite value with a sign, a mantissa \<open>m\<close> and an exponent \<open>e\<close>
  that stands for m * 2^e; the flag is set for a negative sign, so that \<open>-0\<close>
  is kept apart from \<open>+0\<close>.  The binary64 values are those with m < 2^53,
  e at least -1074 and a magnitude below 2^1024; a value may have several
  such representations.
\<close>

datatype number = NaN | Infinity bool | Finite bool nat int

definition finiteValue :: "bool \<Rightarrow> nat \<Rightarrow> int \<Rightarrow> real" where
  "finiteValue s m e =
     (if s then - 1 else 1) * real m * (if 0 \<le> e then 2 ^ nat e else 1 / 2 ^ nat (- e))"

text \<open>
  The comparisons \<open><=\<close>, \<open><\<close> and \<open>===\<close>: false whenever an operand is \<open>NaN\<close>,
  and blind to the sign of zero.
\<close>

fun num_le :: "number \<Rightarrow> number \<Rightarrow> bool" where
  "num_le NaN b = False"
| "num_le (Infinity s) NaN = False"
| "num_le (Infinity s) (Infinity s') = (s \<or> \<not> s')"
| "num_le (Infinity s) (Finite s' m' e') = s"
| "num_le (Finite s m e) NaN = False"
| "num_le (Finite s m e) (Infinity s') = (\<not> s')"
| "num_le (Finite s m e) (Finite s' m' e') = (finiteValue s m e \<le> finiteValue s' m' e')"

definition num_lt :: "number \<Rightarrow> number \<Rightarrow> bool" where
  "num_lt a b = (num_le a b \<and> \<not> num_le b a)"

definition strictEq :: "number \<Rightarrow> number \<Rightarrow> bool" where
  "strictEq a b = (num_le a b \<and> num_le b a)"

fun isZero :: "number \<Rightarrow> bool" where
  "isZero (Finite s m e) = (m = 0)"
| "isZero a = False"

fun negative :: "number \<Rightarrow> bool" where
  "negative (Finite s m e) = s"
| "negative (Infinity s) = s"
| "negative NaN = False"

text \<open>
  \<open>Math.max\<close> and \<open>Math.min\<close> of two numbers: \<open>NaN\<close> when an operand is
  \<open>NaN\<close>; of two zeros, \<open>Math.max\<close> is \<open>-0\<close> only when both are and
  \<open>Math.min\<close> is \<open>-0\<close> when one is.
\<close>

definition Math_max :: "number \<Rightarrow> number \<Rightarrow> number" where
  "Math_max a b =
     (if a = NaN \<or> b = NaN then NaN
      else if num_lt a b then b
      else if num_lt b a then a
      else if isZero a \<and> isZero b then Finite (negative a \<and> negative b) 0 0
      else a)"

definition Math_min :: "number \<Rightarrow> number \<Rightarrow> number" where
  "Math_min a b =
     (if a = NaN \<or> b = NaN then NaN
      else if num_lt a b then a
      else if num_lt b a then b
      else if isZero a \<and> isZero b then Finite (negative a \<or> negative b) 0 0
      else a)"

text \<open>
  Rounding of an exact result m * 2^e to 53 significant bits, to the nearest
  value and to the even mantissa on a tie, with overflow to the infinity.
\<close>

definition round53 :: "bool \<Rightarrow> nat \<Rightarrow> int \<Rightarrow> number" where
  "round53 s m e =
     (let k = bitlen (int m) - 53;
          d = 2 ^ nat k;
          q = int m div d;
          r = int m mod d;
          q' = (if k \<le> 0 then int m
                else if d < 2 * r \<or> (d = 2 * r \<and> odd q) then q + 1 else q);
          e' = (if k \<le> 0 then e else e + k)
      in if 1024 < bitlen q' + e' then Infinity s else Finite s (nat q') e')"

text \<open>
  The sum \<open>a + b\<close>: the exact sum of two finite values, taken at the smaller
  exponent, is rounded; an exact zero is \<open>-0\<close> only when both operands are
  negative.  The difference \<open>a - b\<close> is the sum of \<open>a\<close> and the negated \<open>b\<close>.
\<close>

fun num_add :: "number \<Rightarrow> number \<Rightarrow> number" where
  "num_add NaN b = NaN"
| "num_add (Infinity s) NaN = NaN"
| "num_add (Infinity s) (Infinity s') = (if s = s' then Infinity s else NaN)"
| "num_add (Infinity s) (Finite s' m' e') = Infinity s"
| "num_add (Finite s m e) NaN = NaN"
| "num_add (Finite s m e) (Infinity s') = Infinity s'"
| "num_add (Finite s m e) (Finite s' m' e') =
     (let emin = min e e';
          x = (if s then - int m else int m) * 2 ^ nat (e - emin)
            + (if s' then - int m' else int m') * 2 ^ nat (e' - emin)
      in if x = 0 then Finite (s \<and> s') 0 emin
         else round53 (x < 0) (nat \<bar>x\<bar>) emin)"

fun num_neg :: "number \<Rightarrow> number" where
  "num_neg NaN = NaN"
| "num_neg (Infinity s) = Infinity (\<not> s)"
| "num_neg (Finite s m e) = Finite (\<not> s) m e"

definition num_sub :: "number \<Rightarrow> number \<Rightarrow> number" where
  "num_sub a b = num_add a (num_neg b)"

section \<open>The zoom handle in binary64 (usePanZoom, FlowCanvas)\<close>

text \<open>
  The props and the state that \<open>setZoom\<close>, \<open>zoomIn\<close>, \<open>zoomOut\<close> and
  \<open>getZoom\<close> of the imperative handle read and write, as binary64 numbers.
  \<open>clampZoom64\<close> and \<open>setZoomInternal64\<close> are \<open>clampZoom\<close> and
  \<open>setZoomInternal\<close> of the source on these numbers.
\<close>

record ZoomProps64 =
  minZoom64 :: number
  maxZoom64 :: number
  zoomStep64 :: number

record Zoom64 =
  zoomState64 :: number
  zoomRef64 :: number
  instanceZoom64 :: "number option"

text \<open>\<^verbatim>\<open>(value: number) => Math.min(maxZoom, Math.max(minZoom, value))\<close>\<close>

definition clampZoom64 :: "ZoomProps64 \<Rightarrow> number \<Rightarrow> number" where
  "clampZoom64 p v = Math_min (maxZoom64 p) (Math_max (minZoom64 p) v)"

definition setZoomInternal64 :: "ZoomProps64 \<Rightarrow> number \<Rightarrow> Zoom64 \<Rightarrow> number \<times> Zoom64" where
  "setZoomInternal64 p v st =
     (let clamped = clampZoom64 p v
      in (clamped,
          st\<lparr>zoomState64 := (if strictEq (zoomState64 st) clamped then zoomState64 st else clamped),
             zoomRef64 := clamped,
             instanceZoom64 := (case instanceZoom64 st of None \<Rightarrow> None | Some _ \<Rightarrow> Some clamped)\<rparr>))"

text \<open>
  \<^verbatim>\<open>zoomIn: () => setZoomInternal(zoomRef.current + zoomStep)\<close>,
  \<^verbatim>\<open>zoomOut: () => setZoomInternal(zoomRef.current - zoomStep)\<close>,
  \<^verbatim>\<open>setZoom: (value: number) => { setZoomInternal(value); }\<close>,
  \<^verbatim>\<open>getZoom: () => zoomRef.current\<close>
\<close>

definition zoomIn :: "ZoomProps64 \<Rightarrow> Zoom64 \<Rightarrow> Zoom64" where
  "zoomIn p st = snd (setZoomInternal64 p (num_add (zoomRef64 st) (zoomStep64 p)) st)"

definition zoomOut :: "ZoomProps64 \<Rightarrow> Zoom64 \<Rightarrow> Zoom64" where
  "zoomOut p st = snd (setZoomInternal64 p (num_sub (zoomRef64 st) (zoomStep64 p)) st)"

definition setZoom :: "ZoomProps64 \<Rightarrow> number \<Rightarrow> Zoom64 \<Rightarrow> Zoom64" where
  "setZoom p v st = snd (setZoomInternal64 p v st)"

definition getZoom :: "Zoom64 \<Rightarrow> number" where
  "getZoom st = zoomRef64 st"

text \<open>
  The defaults \<^verbatim>\<open>minZoom = 0.25, maxZoom = 2, zoomStep = 0.1\<close> as the binary64
  values of these literals (0.1 is not a binary64 value; its literal denotes
  7205759403792794 * 2^(-56)), and the initial state
  \<^verbatim>\<open>useState(zoomProp ?? 1)\<close>.
\<close>

definition defaultZoomProps64 :: ZoomProps64 where
  "defaultZoomProps64 =
     \<lparr>minZoom64 = Finite False 1 (- 2), maxZoom64 = Finite False 1 1,
      zoomStep64 = Finite False 7205759403792794 (- 56)\<rparr>"

definition initialZoom64 :: "number option \<Rightarrow> number option \<Rightarrow> Zoom64" where
  "initialZoom64 zoomProp inst =
     \<lparr>zoomState64 = (case zoomProp of None \<Rightarrow> Finite False 1 0 | Some v \<Rightarrow> v),
      zoomRef64 = (case zoomProp of None \<Rightarrow> Finite False 1 0 | Some v \<Rightarrow> v),
      instanceZoom64 = inst\<rparr>"

section \<open>Draft connections (toDraftConnection)\<close>

text \<open>
  What \<open>toDraftConnection\<close> reads of the engine's event parameters: each
  endpoint may be missing, has an optional \<open>portId\<close> and an optional element;
  \<open>closest_jr_node\<close> is the result of \<open>element.closest('.jr-node')\<close> and
  \<open>data_node_id\<close> the result of \<open>getAttribute('data-node-id')\<close> on it.
\<close>

record NodeElement =
  data_node_id :: "string option"

record Element =
  closest_jr_node :: "NodeElement option"

record EndpointParams =
  ep_portId :: "string option"
  ep_element :: "Element option"

record ConnectionParams =
  info_connection :: nat
  sourceEndpoint :: "EndpointParams option"
  targetEndpoint :: "EndpointParams option"

text \<open>\<open>!s\<close> for a string that may be null or undefined.\<close>

definition falsy :: "string option \<Rightarrow> bool" where
  "falsy s = (case s of None \<Rightarrow> True | Some v \<Rightarrow> v = [])"

definition endpointNodeId :: "EndpointParams option \<Rightarrow> string option" where
  "endpointNodeId ep =
     Option.bind (Option.bind (Option.bind ep ep_element) closest_jr_node) data_node_id"

definition normalizePort :: "string option \<Rightarrow> string option" where
  "normalizePort port = (if port = Some DEFAULT_PORT_ID then None else port)"

definition toDraftConnection :: "ConnectionParams \<Rightarrow> DraftConnection option" where
  "toDraftConnection info =
     (let sourcePortId = Option.bind (sourceEndpoint info) ep_portId;
          targetPortId = Option.bind (targetEndpoint info) ep_portId;
          sourceNodeId = endpointNodeId (sourceEndpoint info);
          targetNodeId = endpointNodeId (targetEndpoint info)
      in if falsy sourceNodeId \<or> falsy targetNodeId then None
         else (case (sourceNodeId, targetNodeId) of
                 (Some s, Some t) \<Rightarrow>
                   Some \<lparr>source = \<lparr>nodeId = s, portId = normalizePort sourcePortId\<rparr>,
                         target = \<lparr>nodeId = t, portId = normalizePort targetPortId\<rparr>\<rparr>
               | _ \<Rightarrow> None))"

section \<open>The engine's connections\<close>

text \<open>
  The diagramming engine is an external collaborator.  Of a connection object
  the wrapper reads \<open>getUuids()\<close> and its parameters and sets parameters,
  classes, overlays, label and detachability.  Connection objects are shared
  between the engine and the wrapper's maps, so they live in a store \<open>objs\<close>
  indexed by handles; \<open>live\<close> lists the handles that \<open>getConnections\<close>
  enumerates, in order, and \<open>fresh\<close> is the next unused handle.  \<open>accepts\<close>
  says for which endpoint pairs \<open>connect\<close> returns a connection rather than
  \<open>undefined\<close>.
\<close>

record Connection =
  uuids :: "string \<times> string"
  idParam :: "string option"
  classParam :: "string option"
  handlersParam :: bool
  clickTarget :: "string option"
  detachable :: bool
  classes :: "string list"
  overlays :: "string list"
  labelText :: string

record Engine =
  objs :: "nat \<Rightarrow> Connection"
  live :: "nat list"
  fresh :: nat
  accepts :: "string \<times> string \<Rightarrow> bool"

definition flattenConnections :: "Engine \<Rightarrow> nat list" where
  "flattenConnections e = live e"

definition isSameUuid :: "Connection \<Rightarrow> string \<Rightarrow> string \<Rightarrow> bool" where
  "isSameUuid c s t = (fst (uuids c) = s \<and> snd (uuids c) = t)"

definition mutate :: "nat \<Rightarrow> (Connection \<Rightarrow> Connection) \<Rightarrow> Engine \<Rightarrow> Engine" where
  "mutate h f e = e\<lparr>objs := (objs e)(h := f (objs e h))\<rparr>"

text \<open>
  \<open>deleteConnection(connection, { fireEvent })\<close> takes the connection out of the
  live list; the second component lists the connections for which the engine
  fires its detachment event, which it does only when \<open>fireEvent\<close> is set.
\<close>

definition deleteConnection :: "nat \<Rightarrow> bool \<Rightarrow> Engine \<Rightarrow> Engine \<times> nat list" where
  "deleteConnection h fireEvent e =
     (e\<lparr>live := removeAll h (live e)\<rparr>,
      if fireEvent \<and> h \<in> set (live e) then [h] else [])"

definition newConnection :: "string \<times> string \<Rightarrow> bool \<Rightarrow> Connection" where
  "newConnection p d =
     \<lparr>uuids = p, idParam = None, classParam = None, handlersParam = False,
      clickTarget = None, detachable = d, classes = [], overlays = [], labelText = []\<rparr>"

definition connect :: "string \<times> string \<Rightarrow> bool \<Rightarrow> Engine \<Rightarrow> nat option \<times> Engine" where
  "connect p d e =
     (if accepts e p
      then (Some (fresh e),
            e\<lparr>objs := (objs e)(fresh e := newConnection p d),
               live := live e @ [fresh e],
               fresh := Suc (fresh e)\<rparr>)
      else (None, e))"

text \<open>The engine right after \<open>newInstance\<close>: no connection yet.\<close>

definition emptyEngine :: Engine where
  "emptyEngine =
     \<lparr>objs = (\<lambda>h. newConnection ([], []) True), live = [], fresh = 0, accepts = (\<lambda>p. True)\<rparr>"

section \<open>Engine event handlers\<close>

text \<open>
  The callbacks of the embedding application: \<open>onLinkCreate\<close> may be absent and
  may return \<open>false\<close>, \<open>true\<close> or nothing (\<open>None\<close>); of \<open>onLinkDetached\<close> only
  its presence matters.
\<close>

record Callbacks =
  onLinkCreate :: "(DraftConnection \<Rightarrow> bool option) option"
  onLinkDetached :: bool

datatype Notification =
  LinkCreate (draftOf: DraftConnection)
| LinkDetached (draftOf: DraftConnection)

definition onConnectionDetached :: "Callbacks \<Rightarrow> bool \<Rightarrow> ConnectionParams \<Rightarrow> Notification list" where
  "onConnectionDetached cb syncing info =
     (if syncing then []
      else (case toDraftConnection info of
              None \<Rightarrow> []
            | Some draft \<Rightarrow> if onLinkDetached cb then [LinkDetached draft] else []))"

text \<open>
  The \<open>EVENT_CONNECTION\<close> handler.  Detachment events fired by the engine while
  it deletes the vetoed connection reach \<open>onConnectionDetached\<close>.
\<close>

definition onConnection ::
  "Callbacks \<Rightarrow> bool \<Rightarrow> ConnectionParams \<Rightarrow> bool \<Rightarrow> Engine \<Rightarrow> Engine \<times> Notification list" where
  "onConnection cb syncing info originalEvent e =
     (if syncing \<or> \<not> originalEvent then (e, [])
      else (case toDraftConnection info of
              None \<Rightarrow> (e, [])
            | Some draft \<Rightarrow>
                (let result = (case onLinkCreate cb of None \<Rightarrow> None | Some f \<Rightarrow> f draft);
                     notes = (case onLinkCreate cb of None \<Rightarrow> [] | Some f \<Rightarrow> [LinkCreate draft])
                 in if result = Some False
                    then (let del = deleteConnection (info_connection info) False e
                          in (fst del,
                              notes @ concat (map (\<lambda>h. onConnectionDetached cb syncing
                                                          (info\<lparr>info_connection := h\<rparr>))
                                                  (snd del))))
                    else (e, notes))))"

section \<open>Connection reconciler\<close>

definition addClass :: "string \<Rightarrow> Connection \<Rightarrow> Connection" where
  "addClass k c = c\<lparr>classes := Set_add k (classes c)\<rparr>"

definition removeClass :: "string \<Rightarrow> Connection \<Rightarrow> Connection" where
  "removeClass k c = c\<lparr>classes := Set_delete k (classes c)\<rparr>"

text \<open>
  \<open>attachConnectionHandlers\<close> binds the handlers once, guarded by the handlers
  parameter; the click handler closes over the \<open>data\<close> of that first call.
\<close>

definition attachConnectionHandlers :: "FlowConnection \<Rightarrow> Connection \<Rightarrow> Connection" where
  "attachConnectionHandlers d c =
     (if handlersParam c then c
      else c\<lparr>handlersParam := True, clickTarget := Some (conn_id d)\<rparr>)"

definition ensureDeleteOverlay :: "FlowConnection \<Rightarrow> Connection \<Rightarrow> Connection" where
  "ensureDeleteOverlay d c =
     (let overlayId = ''delete-'' @ conn_id d
      in if overlayId \<in> set (overlays c) then c
         else c\<lparr>overlays := overlays c @ [overlayId]\<rparr>)"

definition updateConnectionMetadata ::
  "string list \<Rightarrow> FlowConnection \<Rightarrow> Connection \<Rightarrow> Connection" where
  "updateConnectionMetadata selected d c =
     (let c1 = c\<lparr>idParam := Some (conn_id d)\<rparr>;
          c2 = (case classParam c1 of
                  None \<Rightarrow> c1
                | Some previousClass \<Rightarrow>
                    if previousClass \<noteq> [] \<and> Some previousClass \<noteq> conn_className d
                    then removeClass previousClass c1 else c1);
          c3 = (case conn_className d of
                  None \<Rightarrow> c2
                | Some k \<Rightarrow> if k \<noteq> [] then addClass k c2 else c2);
          c4 = c3\<lparr>classParam := Some (case conn_className d of None \<Rightarrow> [] | Some k \<Rightarrow> k)\<rparr>;
          c5 = c4\<lparr>detachable := (conn_editable d \<noteq> Some False)\<rparr>;
          c6 = addClass ''jr-connection'' c5;
          c7 = removeClass ''jr-selected'' c6;
          c8 = (if conn_id d \<in> set selected then addClass ''jr-selected'' c7 else c7)
      in c8\<lparr>labelText := (case conn_label d of None \<Rightarrow> [] | Some l \<Rightarrow> l)\<rparr>)"

text \<open>
  The state of one reconciliation pass: the engine, the two maps built at the
  start of the pass and \<open>connectionMapRef\<close>.  A JavaScript \<open>Map\<close> keeps
  insertion order and \<open>set\<close> on a present key keeps its place, as
  \<open>AList.update\<close> does.
\<close>

record Reconciler =
  engine :: Engine
  existing :: "(string \<times> nat) list"
  byUuid :: "(string \<times> nat) list"
  connectionMap :: "(string \<times> nat) list"

text \<open>\<^verbatim>\<open>`${sourceUuid}|${targetUuid}`\<close>\<close>

definition pairKey :: "string \<times> string \<Rightarrow> string" where
  "pairKey p = fst p @ ''|'' @ snd p"

text \<open>
  One iteration of the loop over \<open>flattenConnections(instance)\<close>: a connection
  with a truthy identity parameter is entered in \<open>existing\<close>, and every
  connection is entered in \<open>byUuid\<close>.
\<close>

definition indexConnection ::
  "Engine \<Rightarrow> nat \<Rightarrow> (string \<times> nat) list \<times> (string \<times> nat) list
     \<Rightarrow> (string \<times> nat) list \<times> (string \<times> nat) list" where
  "indexConnection e h m =
     (let c = objs e h;
          ex = (case idParam c of
                  None \<Rightarrow> fst m
                | Some identifier \<Rightarrow>
                    if identifier \<noteq> [] then AList.update identifier h (fst m) else fst m)
      in (ex, AList.update (pairKey (uuids c)) h (snd m)))"

definition snapshot :: "Engine \<Rightarrow> (string \<times> nat) list \<times> (string \<times> nat) list" where
  "snapshot e = fold (indexConnection e) (flattenConnections e) ([], [])"

definition resolvedPair :: "FlowConnection \<Rightarrow> string \<times> string" where
  "resolvedPair d =
     (getEndpointUuid (nodeId (conn_source d)) (portId (conn_source d)),
      getEndpointUuid (nodeId (conn_target d)) (portId (conn_target d)))"

text \<open>Step b: the connection tagged with the identity, deleted on a mismatch.\<close>

definition lookupById ::
  "FlowConnection \<Rightarrow> string \<times> string \<Rightarrow> Reconciler \<Rightarrow> nat option \<times> Reconciler" where
  "lookupById d p r =
     (case map_of (existing r) (conn_id d) of
        None \<Rightarrow> (None, r)
      | Some h \<Rightarrow>
          if \<not> isSameUuid (objs (engine r) h) (fst p) (snd p)
          then (None, r\<lparr>engine := fst (deleteConnection h False (engine r)),
                         connectionMap := AList.delete (conn_id d) (connectionMap r)\<rparr>)
          else (Some h, r))"

text \<open>Step c: reuse of the connection filed under the endpoint pair.\<close>

definition reuseByPair ::
  "string \<times> string \<Rightarrow> nat option \<times> Reconciler \<Rightarrow> nat option \<times> Reconciler" where
  "reuseByPair p cr =
     (case fst cr of
        Some h \<Rightarrow> cr
      | None \<Rightarrow>
          (case map_of (byUuid (snd cr)) (pairKey p) of
             None \<Rightarrow> cr
           | Some reused \<Rightarrow>
               (Some reused, (snd cr)\<lparr>byUuid := AList.delete (pairKey p) (byUuid (snd cr))\<rparr>)))"

text \<open>
  Steps d to f and the bookkeeping at the end of the loop body.  When
  \<open>connect\<close> returns nothing the body returns before \<open>existing.delete\<close>.
\<close>

definition finishConnection ::
  "string list \<Rightarrow> FlowConnection \<Rightarrow> nat \<Rightarrow> Reconciler \<Rightarrow> Reconciler" where
  "finishConnection selected d h r =
     r\<lparr>engine := mutate h (updateConnectionMetadata selected d)
                   (mutate h (ensureDeleteOverlay d)
                      (mutate h (attachConnectionHandlers d) (engine r))),
       connectionMap := AList.update (conn_id d) h (connectionMap r),
       existing := AList.delete (conn_id d) (existing r)\<rparr>"

definition connectOrAttach ::
  "string list \<Rightarrow> FlowConnection \<Rightarrow> string \<times> string \<Rightarrow> nat option \<times> Reconciler \<Rightarrow> Reconciler" where
  "connectOrAttach selected d p cr =
     (case fst cr of
        Some h \<Rightarrow> finishConnection selected d h (snd cr)
      | None \<Rightarrow>
          (case connect p (conn_editable d \<noteq> Some False) (engine (snd cr)) of
             (None, e') \<Rightarrow> snd cr
           | (Some h, e') \<Rightarrow> finishConnection selected d h ((snd cr)\<lparr>engine := e'\<rparr>)))"

text \<open>The body of \<open>connections.forEach\<close>; \<open>endpointMap\<close> is \<open>endpointMapRef.current\<close>.\<close>

definition reconcileOne ::
  "string list \<Rightarrow> (string \<rightharpoonup> nat) \<Rightarrow> FlowConnection \<Rightarrow> Reconciler \<Rightarrow> Reconciler" where
  "reconcileOne selected endpointMap d r =
     (let p = resolvedPair d
      in if endpointMap (fst p) = None \<or> endpointMap (snd p) = None then r
         else connectOrAttach selected d p (reuseByPair p (lookupById d p r)))"

text \<open>The final \<open>existing.forEach\<close>.\<close>

definition sweepOne :: "string \<times> nat \<Rightarrow> Reconciler \<Rightarrow> Reconciler" where
  "sweepOne ih r =
     r\<lparr>engine := fst (deleteConnection (snd ih) False (engine r)),
       connectionMap := AList.delete (fst ih) (connectionMap r)\<rparr>"

definition sweep :: "Reconciler \<Rightarrow> Reconciler" where
  "sweep r = fold sweepOne (existing r) r"

definition startPass :: "Engine \<Rightarrow> (string \<times> nat) list \<Rightarrow> Reconciler" where
  "startPass e cm =
     \<lparr>engine = e, existing = fst (snapshot e), byUuid = snd (snapshot e), connectionMap = cm\<rparr>"

text \<open>
  The batch of the connection effect, on a present engine instance: the engine
  and \<open>connectionMapRef\<close> after the pass.
\<close>

definition reconcileConnections ::
  "string list \<Rightarrow> (string \<rightharpoonup> nat) \<Rightarrow> FlowConnection list \<Rightarrow> Engine \<Rightarrow> (string \<times> nat) list
     \<Rightarrow> Reconciler" where
  "reconcileConnections selected endpointMap declared e cm =
     sweep (fold (reconcileOne selected endpointMap) declared (startPass e cm))"

text \<open>The effect itself returns at once while there is no engine instance.\<close>

definition connectionEffect ::
  "string list \<Rightarrow> (string \<rightharpoonup> nat) \<Rightarrow> FlowConnection list \<Rightarrow> Engine option \<Rightarrow> (string \<times> nat) list
     \<Rightarrow> Engine option \<times> (string \<times> nat) list" where
  "connectionEffect selected endpointMap declared inst cm =
     (case inst of
        None \<Rightarrow> (None, cm)
      | Some e \<Rightarrow>
          (let r = reconcileConnections selected endpointMap declared e cm
           in (Some (engine r), connectionMap r)))"

section \<open>Convergence of a reconciliation pass: notions\<close>

text \<open>
  What the engine shows of a connection: its identity tag and the endpoint pair
  it spans.  \<open>taggedWith e i\<close> lists the live connections tagged \<open>i\<close>.
\<close>

definition tagOf :: "Engine \<Rightarrow> nat \<Rightarrow> string option" where
  "tagOf e h = idParam (objs e h)"

definition pairOf :: "Engine \<Rightarrow> nat \<Rightarrow> string \<times> string" where
  "pairOf e h = uuids (objs e h)"

definition taggedWith :: "Engine \<Rightarrow> string \<Rightarrow> nat list" where
  "taggedWith e i = filter (\<lambda>h. tagOf e h = Some i) (live e)"

text \<open>Live handles are distinct and allocated.\<close>

definition wellFormed :: "Engine \<Rightarrow> bool" where
  "wellFormed e = (distinct (live e) \<and> (\<forall>h\<in>set (live e). h < fresh e))"

text \<open>Step a: both endpoint identities of the declared connection are in the endpoint map.\<close>

definition resolvable :: "(string \<rightharpoonup> nat) \<Rightarrow> FlowConnection \<Rightarrow> bool" where
  "resolvable em d = (em (fst (resolvedPair d)) \<noteq> None \<and> em (snd (resolvedPair d)) \<noteq> None)"

text \<open>No two live connections carry the same truthy identity tag.\<close>

definition uniqueTags :: "Engine \<Rightarrow> bool" where
  "uniqueTags e =
     (\<forall>a\<in>set (live e). \<forall>b\<in>set (live e). \<not> falsy (tagOf e a) \<and> tagOf e a = tagOf e b \<longrightarrow> a = b)"

text \<open>
  Endpoint-pair reuse is safe for a declared connection when either a live
  connection already carries its tag and spans its pair (so that the identity
  lookup succeeds), or every live connection filed under its pair key spans
  exactly that pair and carries no truthy tag.
\<close>

definition pairReuseSafe :: "Engine \<Rightarrow> FlowConnection \<Rightarrow> bool" where
  "pairReuseSafe e d =
     ((\<exists>h\<in>set (live e). tagOf e h = Some (conn_id d) \<and> pairOf e h = resolvedPair d) \<or>
      (\<forall>h\<in>set (live e). pairKey (pairOf e h) = pairKey (resolvedPair d) \<longrightarrow>
          pairOf e h = resolvedPair d \<and> falsy (tagOf e h)))"

subsection \<open>The loop invariant\<close>

text \<open>
  The invariant relates the state after a prefix \<open>P\<close> of the declared list to
  the engine \<open>e0\<close> at the start of the pass.  \<open>doneIds\<close> are the identities of
  the resolvable connections processed so far.
\<close>

definition doneIds :: "(string \<rightharpoonup> nat) \<Rightarrow> FlowConnection list \<Rightarrow> string set" where
  "doneIds em P = conn_id ` {d \<in> set P. resolvable em d}"

definition inv_frame :: "Engine \<Rightarrow> Reconciler \<Rightarrow> bool" where
  "inv_frame e0 st =
     (wellFormed (engine st) \<and> fresh e0 \<le> fresh (engine st) \<and> accepts (engine st) = accepts e0 \<and>
      (\<forall>h. h < fresh e0 \<longrightarrow> pairOf (engine st) h = pairOf e0 h) \<and>
      (\<forall>h\<in>set (live (engine st)). h < fresh e0 \<longrightarrow> h \<in> set (live e0)))"

definition inv_deleted :: "Engine \<Rightarrow> string set \<Rightarrow> Reconciler \<Rightarrow> bool" where
  "inv_deleted e0 RP st =
     (\<forall>h\<in>set (live e0). h \<notin> set (live (engine st)) \<longrightarrow> (\<exists>j\<in>RP. tagOf e0 h = Some j))"

definition inv_existing :: "Engine \<Rightarrow> string set \<Rightarrow> Reconciler \<Rightarrow> bool" where
  "inv_existing e0 RP st =
     (distinct (map fst (existing st)) \<and>
      (\<forall>i. map_of (existing st) i = (if i \<in> RP then None else map_of (fst (snapshot e0)) i)))"

definition inv_byUuid :: "Engine \<Rightarrow> Reconciler \<Rightarrow> bool" where
  "inv_byUuid e0 st =
     (\<forall>k r. map_of (byUuid st) k = Some r \<longrightarrow>
        map_of (snd (snapshot e0)) k = Some r \<and>
        (falsy (tagOf e0 r) \<longrightarrow> tagOf (engine st) r = tagOf e0 r))"

definition inv_tags :: "Engine \<Rightarrow> string set \<Rightarrow> Reconciler \<Rightarrow> bool" where
  "inv_tags e0 RP st =
     ((\<forall>h\<in>set (live e0). \<not> falsy (tagOf e0 h) \<longrightarrow> tagOf (engine st) h = tagOf e0 h) \<and>
      (\<forall>h\<in>set (live (engine st)). \<forall>j. tagOf (engine st) h = Some j \<longrightarrow>
          j \<in> RP \<or> (h < fresh e0 \<and> tagOf e0 h = Some j)))"

definition inv_claimed :: "(string \<rightharpoonup> nat) \<Rightarrow> FlowConnection list \<Rightarrow> Reconciler \<Rightarrow> bool" where
  "inv_claimed em P st =
     (\<forall>d\<in>set P. resolvable em d \<longrightarrow>
        (\<exists>h. taggedWith (engine st) (conn_id d) = [h] \<and> pairOf (engine st) h = resolvedPair d))"

definition passInv :: "Engine \<Rightarrow> (string \<rightharpoonup> nat) \<Rightarrow> FlowConnection list \<Rightarrow> Reconciler \<Rightarrow> bool" where
  "passInv e0 em P st =
     (inv_frame e0 st \<and> inv_deleted e0 (doneIds em P) st \<and> inv_existing e0 (doneIds em P) st \<and>
      inv_byUuid e0 st \<and> inv_tags e0 (doneIds em P) st \<and> inv_claimed em P st)"

text \<open>The state just before the claimed connection \<open>c\<close> is finished for \<open>d\<close>.\<close>

definition ready ::
  "Engine \<Rightarrow> (string \<rightharpoonup> nat) \<Rightarrow> FlowConnection list \<Rightarrow> FlowConnection \<Rightarrow> nat \<Rightarrow> Reconciler \<Rightarrow> bool" where
  "ready e0 em P d c st =
     (inv_frame e0 st \<and> inv_deleted e0 (insert (conn_id d) (doneIds em P)) st \<and>
      inv_existing e0 (doneIds em P) st \<and> inv_byUuid e0 st \<and> inv_tags e0 (doneIds em P) st \<and>
      inv_claimed em P st \<and>
      c \<in> set (live (engine st)) \<and> pairOf (engine st) c = resolvedPair d \<and>
      (\<forall>j\<in>doneIds em P. tagOf (engine st) c \<noteq> Some j) \<and>
      (\<forall>h\<in>set (live (engine st)). h \<noteq> c \<longrightarrow> tagOf (engine st) h \<noteq> Some (conn_id d)) \<and>
      (\<forall>k r. map_of (byUuid st) k = Some r \<and> falsy (tagOf e0 r) \<longrightarrow> r \<noteq> c) \<and>
      (c \<in> set (live e0) \<and> \<not> falsy (tagOf e0 c) \<longrightarrow> tagOf e0 c = Some (conn_id d)))"

text \<open>What a step needs of the declared connection it processes.\<close>

definition step_ok :: "Engine \<Rightarrow> (string \<rightharpoonup> nat) \<Rightarrow> FlowConnection list \<Rightarrow> FlowConnection \<Rightarrow> bool" where
  "step_ok e0 em P d =
     (wellFormed e0 \<and> uniqueTags e0 \<and> conn_id d \<notin> doneIds em P \<and> conn_id d \<noteq> [] \<and>
      [] \<notin> doneIds em P \<and> pairReuseSafe e0 d \<and> accepts e0 (resolvedPair d))"

subsection \<open>Sample engines and declarations\<close>

text \<open>
  Two endpoints \<open>A:out\<close> and \<open>B:in\<close>; an engine with one connection between
  them drawn by direct manipulation (no tag), a declared connection between the
  two ports, and the state after a first pass that declares it as \<open>e1\<close> on a
  new engine.
\<close>

definition sampleEndpoints :: "string \<rightharpoonup> nat" where
  "sampleEndpoints = [''A:out'' \<mapsto> 0, ''B:in'' \<mapsto> 1]"

definition drawnEngine :: Engine where
  "drawnEngine = emptyEngine
     \<lparr>objs := (objs emptyEngine)(0 := newConnection (''A:out'', ''B:in'') True),
      live := [0], fresh := 1\<rparr>"

definition declared :: "string \<Rightarrow> FlowConnection" where
  "declared i = \<lparr>conn_id = i,
      conn_source = \<lparr>nodeId = ''A'', portId = Some ''out''\<rparr>,
      conn_target = \<lparr>nodeId = ''B'', portId = Some ''in''\<rparr>,
      conn_label = None, conn_className = None, conn_editable = None\<rparr>"

definition firstPass :: Reconciler where
  "firstPass = reconcileConnections [] sampleEndpoints [declared ''e1''] emptyEngine []"

section \<open>Properties of the endpoint identity\<close>

lemma colon_split:
  assumes "CHR '':'' \<notin> set a" "CHR '':'' \<notin> set b" "a @ CHR '':'' # x = b @ CHR '':'' # y"
  shows "a = b \<and> x = y"
  using assms
proof (induction a arbitrary: b)
  case Nil
  then show ?case by (cases b) auto
next
  case (Cons c a)
  then show ?case by (cases b) auto
qed

text \<open>
  C2 (amended).  The endpoint identity is the node identity, a colon and the
  port identity, an omitted port standing for the reserved default.  On node
  identities that contain no colon it is injective: equal identities come from
  equal node identities and equal effective port identities.
\<close>

theorem getEndpointUuid_injective:
  assumes "CHR '':'' \<notin> set n" and "CHR '':'' \<notin> set n'"
    and "getEndpointUuid n p = getEndpointUuid n' p'"
  shows "n = n' \<and> effectivePort p = effectivePort p'"
  using colon_split [OF assms(1,2), of "effectivePort p" "effectivePort p'"] assms(3)
  by (simp add: getEndpointUuid_def)

theorem getEndpointUuid_injective_witness:
  "CHR '':'' \<notin> set ''a'' \<and> getEndpointUuid ''a'' None = getEndpointUuid ''a'' (Some ''default'')
   \<and> effectivePort None = effectivePort (Some ''default'')"
  using getEndpointUuid_injective [of "''a''" "''a''" None "Some ''default''"]
  by (simp add: getEndpointUuid_def effectivePort_def DEFAULT_PORT_ID_def)

text \<open>
  Without the restriction the identity is not injective: node \<open>a:b\<close> with port
  \<open>c\<close> and node \<open>a\<close> with port \<open>b:c\<close> are distinct declarations with unique
  node identities and unique ports per node, and share the identity \<open>a:b:c\<close>.
\<close>

theorem getEndpointUuid_collision:
  "(''a:b'', Some ''c'') \<noteq> (''a'', Some ''b:c'')
   \<and> getEndpointUuid ''a:b'' (Some ''c'') = getEndpointUuid ''a'' (Some ''b:c'')"
  by (simp add: getEndpointUuid_def effectivePort_def)

section \<open>Properties of the selection manager\<close>

lemmas sel_defs = updateNodeSelection_def connectionClick_def handleCanvasClick_def
  clearSelection_def emitSelection_def uniqueList_def new_Set_def Array_from_def Set_add_def
  Set_delete_def Set_has_def modifierHeld_def initialSelection_def selection_def

lemma emitSelection_controlled:
  "emitSelection p nn nc st = (st', e) \<Longrightarrow>
     (\<forall>v. selectedNodes p = Some v \<longrightarrow> nodes st' = nodes st \<and> nodes e = v) \<and>
     (\<forall>v. selectedConnections p = Some v \<longrightarrow> connections st' = connections st \<and> connections e = v)"
  by (auto simp: emitSelection_def)

text \<open>
  C4.  Across a node click, a connection click or a canvas click, a set supplied
  by the caller keeps its locally stored value, and when the transition emits a
  selection notification, the notification carries the supplied value for that
  set.
\<close>

theorem controlled_set_unchanged:
  assumes "transition p c st = (st', r)"
  shows "(\<forall>v. selectedNodes p = Some v \<longrightarrow>
            nodes st' = nodes st \<and> (\<forall>e. r = Some e \<longrightarrow> nodes e = v)) \<and>
         (\<forall>v. selectedConnections p = Some v \<longrightarrow>
            connections st' = connections st \<and> (\<forall>e. r = Some e \<longrightarrow> connections e = v))"
proof -
  have "(st' = st \<and> r = None) \<or> (\<exists>nn nc e. r = Some e \<and> emitSelection p nn nc st = (st', e))"
  proof (cases c)
    case (NodeClick n ev)
    with assms show ?thesis
      by (auto simp: updateNodeSelection_def Let_def prod_eq_iff)
  next
    case (ConnectionClick k ev)
    with assms show ?thesis
      by (cases ev) (auto simp: connectionClick_def Let_def prod_eq_iff)
  next
    case (CanvasClick inside)
    with assms show ?thesis
      by (cases inside) (auto simp: handleCanvasClick_def clearSelection_def Let_def prod_eq_iff)
  qed
  then show ?thesis
  proof
    assume "st' = st \<and> r = None"
    then show ?thesis by simp
  next
    assume "\<exists>nn nc e. r = Some e \<and> emitSelection p nn nc st = (st', e)"
    then obtain nn nc e where e: "r = Some e" "emitSelection p nn nc st = (st', e)" by blast
    from emitSelection_controlled [OF e(2)] e(1) show ?thesis by simp
  qed
qed

theorem controlled_set_unchanged_witness:
  "transition \<lparr>selectedNodes = Some [''x''], selectedConnections = None, allowMultiSelect = True\<rparr>
     (NodeClick ''n'' \<lparr>metaKey = False, ctrlKey = False, shiftKey = False\<rparr>)
     \<lparr>nodes = [''y''], connections = [''k'']\<rparr>
   = (\<lparr>nodes = [''y''], connections = []\<rparr>, Some \<lparr>nodes = [''x''], connections = []\<rparr>)
   \<and> nodes \<lparr>nodes = [''y''], connections = []\<rparr> = nodes \<lparr>nodes = [''y''], connections = [''k'']\<rparr>
   \<and> nodes \<lparr>nodes = [''x''], connections = []\<rparr> = [''x'']"
  using controlled_set_unchanged [of
      "\<lparr>selectedNodes = Some [''x''], selectedConnections = None, allowMultiSelect = True\<rparr>"
      "NodeClick ''n'' \<lparr>metaKey = False, ctrlKey = False, shiftKey = False\<rparr>"
      "\<lparr>nodes = [''y''], connections = [''k'']\<rparr>"
      "\<lparr>nodes = [''y''], connections = []\<rparr>" "Some \<lparr>nodes = [''x''], connections = []\<rparr>"]
  by (simp add: sel_defs)

lemma uniqueList_single: "uniqueList [n] = [n]" "uniqueList [] = []"
  by (simp_all add: uniqueList_def new_Set_def Array_from_def Set_add_def)

text \<open>
  C5 (amended).  For every prior selection state, a click on node \<open>N\<close> with
  multi-select disabled or no modifier key held requests the selection with
  nodes \<open>[N]\<close> and no connections; each set that is not externally controlled
  is stored and emitted as requested.
\<close>

theorem exclusive_click:
  assumes "\<not> (allowMultiSelect p \<and> modifierHeld ev)"
  shows "updateNodeSelection p n ev st = emitSelection p [n] [] st
     \<and> (selectedNodes p = None \<longrightarrow>
          nodes (fst (updateNodeSelection p n ev st)) = [n] \<and>
          nodes (snd (updateNodeSelection p n ev st)) = [n])
     \<and> (selectedConnections p = None \<longrightarrow>
          connections (fst (updateNodeSelection p n ev st)) = [] \<and>
          connections (snd (updateNodeSelection p n ev st)) = [])"
proof -
  have "updateNodeSelection p n ev st = emitSelection p [n] [] st"
    using assms by (auto simp add: updateNodeSelection_def Let_def uniqueList_single)
  then show ?thesis by (simp add: emitSelection_def)
qed

theorem exclusive_click_witness:
  "\<not> (allowMultiSelect \<lparr>selectedNodes = None, selectedConnections = None, allowMultiSelect = True\<rparr>
        \<and> modifierHeld \<lparr>metaKey = False, ctrlKey = False, shiftKey = False\<rparr>)
   \<and> updateNodeSelection \<lparr>selectedNodes = None, selectedConnections = None, allowMultiSelect = True\<rparr>
        ''n'' \<lparr>metaKey = False, ctrlKey = False, shiftKey = False\<rparr>
        \<lparr>nodes = [''a'', ''b''], connections = [''k'']\<rparr>
     = (\<lparr>nodes = [''n''], connections = []\<rparr>, \<lparr>nodes = [''n''], connections = []\<rparr>)"
  using exclusive_click [of
      "\<lparr>selectedNodes = None, selectedConnections = None, allowMultiSelect = True\<rparr>"
      "\<lparr>metaKey = False, ctrlKey = False, shiftKey = False\<rparr>" "''n''"
      "\<lparr>nodes = [''a'', ''b''], connections = [''k'']\<rparr>"]
  by (simp add: modifierHeld_def emitSelection_def)

text \<open>
  With the node set controlled as \<open>[x]\<close>, a click on \<open>n\<close> without a modifier
  emits nodes \<open>[x]\<close>, and the selection after the click is not \<open>{[n], []}\<close>.
\<close>

theorem exclusive_click_controlled_counterexample:
  "\<not> modifierHeld \<lparr>metaKey = False, ctrlKey = False, shiftKey = False\<rparr>
   \<and> snd (updateNodeSelection
        \<lparr>selectedNodes = Some [''x''], selectedConnections = None, allowMultiSelect = True\<rparr>
        ''n'' \<lparr>metaKey = False, ctrlKey = False, shiftKey = False\<rparr> initialSelection)
      = \<lparr>nodes = [''x''], connections = []\<rparr>
   \<and> selection \<lparr>selectedNodes = Some [''x''], selectedConnections = None, allowMultiSelect = True\<rparr>
        (fst (updateNodeSelection
          \<lparr>selectedNodes = Some [''x''], selectedConnections = None, allowMultiSelect = True\<rparr>
          ''n'' \<lparr>metaKey = False, ctrlKey = False, shiftKey = False\<rparr> initialSelection))
      \<noteq> \<lparr>nodes = [''n''], connections = []\<rparr>"
  by (simp add: sel_defs)

lemma distinct_fold_Set_add: "distinct s \<Longrightarrow> distinct (fold Set_add xs s)"
  by (induction xs arbitrary: s) (auto simp: Set_add_def)

lemma distinct_uniqueList: "distinct (uniqueList xs)"
  by (simp add: uniqueList_def Array_from_def new_Set_def distinct_fold_Set_add)

lemma emitSelection_distinct:
  assumes "distinct nn" "distinct nc" "distinct (nodes st)" "distinct (connections st)"
    and "emitSelection p nn nc st = (st', e)"
  shows "distinct (nodes st') \<and> distinct (connections st') \<and>
         (selectedNodes p = None \<longrightarrow> distinct (nodes e)) \<and>
         (selectedConnections p = None \<longrightarrow> distinct (connections e))"
  using assms by (auto simp: emitSelection_def)

lemma transition_distinct:
  assumes "distinct (nodes st)" "distinct (connections st)"
    and "transition p c st = (st', r)"
  shows "distinct (nodes st') \<and> distinct (connections st') \<and>
         (\<forall>e. r = Some e \<longrightarrow>
           (selectedNodes p = None \<longrightarrow> distinct (nodes e)) \<and>
           (selectedConnections p = None \<longrightarrow> distinct (connections e)))"
proof (cases c)
  case (NodeClick n ev)
  with assms(3) obtain nn nc e where "emitSelection p (uniqueList nn) (uniqueList nc) st = (st', e)" "r = Some e"
    by (auto simp: updateNodeSelection_def Let_def prod_eq_iff)
  with emitSelection_distinct [OF distinct_uniqueList distinct_uniqueList assms(1,2)]
  show ?thesis by blast
next
  case (ConnectionClick k ev)
  show ?thesis
  proof (cases ev)
    case None
    with ConnectionClick assms show ?thesis by (simp add: connectionClick_def)
  next
    case (Some m)
    with ConnectionClick assms(3) obtain nn nc e where "emitSelection p (uniqueList nn) (uniqueList nc) st = (st', e)" "r = Some e"
      by (auto simp: connectionClick_def Let_def prod_eq_iff)
    with emitSelection_distinct [OF distinct_uniqueList distinct_uniqueList assms(1,2)]
    show ?thesis by blast
  qed
next
  case (CanvasClick inside)
  show ?thesis
  proof (cases inside)
    case True
    with CanvasClick assms show ?thesis by (simp add: handleCanvasClick_def)
  next
    case False
    with CanvasClick assms(3) obtain e where "emitSelection p [] [] st = (st', e)" "r = Some e"
      by (auto simp: handleCanvasClick_def clearSelection_def Let_def prod_eq_iff)
    with emitSelection_distinct [OF _ _ assms(1,2), of "[]" "[]"]
    show ?thesis by simp
  qed
qed

lemma run_distinct:
  assumes "distinct (nodes st)" "distinct (connections st)"
    and "\<forall>pe\<in>set em. (selectedNodes (fst pe) = None \<longrightarrow> distinct (nodes (snd pe))) \<and>
                     (selectedConnections (fst pe) = None \<longrightarrow> distinct (connections (snd pe)))"
    and "run tr st em = (st', em')"
  shows "distinct (nodes st') \<and> distinct (connections st') \<and>
     (\<forall>pe\<in>set em'. (selectedNodes (fst pe) = None \<longrightarrow> distinct (nodes (snd pe))) \<and>
                     (selectedConnections (fst pe) = None \<longrightarrow> distinct (connections (snd pe))))"
  using assms
proof (induction tr arbitrary: st em)
  case Nil
  then show ?case by simp
next
  case (Cons pc tr)
  obtain p c where pc: "pc = (p, c)" by (cases pc)
  obtain st1 r where t: "transition p c st = (st1, r)" by (cases "transition p c st")
  note d = transition_distinct [OF Cons.prems(1,2) t]
  show ?case
  proof (cases r)
    case None
    with Cons.prems(4) pc t have "run tr st1 em = (st', em')" by simp
    with Cons.IH [of st1 em] d Cons.prems(3) show ?thesis by blast
  next
    case (Some e)
    with Cons.prems(4) pc t have "run tr st1 (em @ [(p, e)]) = (st', em')" by simp
    moreover have "\<forall>pe\<in>set (em @ [(p, e)]). (selectedNodes (fst pe) = None \<longrightarrow> distinct (nodes (snd pe))) \<and>
                     (selectedConnections (fst pe) = None \<longrightarrow> distinct (connections (snd pe)))"
      using Cons.prems(3) d Some by auto
    ultimately show ?thesis using Cons.IH [of st1 "em @ [(p, e)]"] d by blast
  qed
qed

lemma transition_emits_unique:
  assumes "transition p c st = (st', Some e)"
  shows "\<exists>nn nc. emitSelection p (uniqueList nn) (uniqueList nc) st = (st', e)"
proof (cases c)
  case (NodeClick n ev)
  with assms show ?thesis
    by (auto simp: updateNodeSelection_def Let_def prod_eq_iff)
next
  case (ConnectionClick k ev)
  with assms show ?thesis
    by (cases ev) (auto simp: connectionClick_def Let_def prod_eq_iff)
next
  case (CanvasClick inside)
  with assms have "emitSelection p (uniqueList []) (uniqueList []) st = (st', e)"
    by (cases inside)
      (auto simp: handleCanvasClick_def clearSelection_def Let_def prod_eq_iff uniqueList_single)
  then show ?thesis by blast
qed

lemma transition_uncontrolled_distinct:
  assumes "transition p c st = (st', Some e)"
  shows "(selectedNodes p = None \<longrightarrow> distinct (nodes e) \<and> distinct (nodes st')) \<and>
         (selectedConnections p = None \<longrightarrow> distinct (connections e) \<and> distinct (connections st'))"
proof -
  from transition_emits_unique [OF assms] obtain nn nc
    where "emitSelection p (uniqueList nn) (uniqueList nc) st = (st', e)" by blast
  then show ?thesis
    using distinct_uniqueList [of nn] distinct_uniqueList [of nc]
    by (auto simp: emitSelection_def)
qed

text \<open>
  C9.  From every prior state, also one that holds duplicates, each emission of
  a node click, a connection click or a canvas click carries, for a set that is
  uncontrolled, a list without duplicates, and the same list is stored.  Over
  every sequence of clicks from the initial state, under any props at each
  click, the stored identity lists never hold an identity twice, and every
  emitted notification is free of duplicates in each set that is uncontrolled
  at the time of the emission.
\<close>

theorem emissions_duplicate_free:
  "(\<forall>st' e. transition p c st = (st', Some e) \<longrightarrow>
      (selectedNodes p = None \<longrightarrow> distinct (nodes e) \<and> distinct (nodes st')) \<and>
      (selectedConnections p = None \<longrightarrow> distinct (connections e) \<and> distinct (connections st'))) \<and>
   distinct (nodes (fst (run clicks initialSelection []))) \<and>
   distinct (connections (fst (run clicks initialSelection []))) \<and>
   (\<forall>pe\<in>set (snd (run clicks initialSelection [])).
      (selectedNodes (fst pe) = None \<longrightarrow> distinct (nodes (snd pe))) \<and>
      (selectedConnections (fst pe) = None \<longrightarrow> distinct (connections (snd pe))))"
  using run_distinct [of initialSelection "[]" clicks "fst (run clicks initialSelection [])"
      "snd (run clicks initialSelection [])"] transition_uncontrolled_distinct [of p c st]
  by (simp add: initialSelection_def)

theorem emissions_duplicate_free_witness:
  "transition \<lparr>selectedNodes = None, selectedConnections = None, allowMultiSelect = True\<rparr>
     (NodeClick ''b'' \<lparr>metaKey = False, ctrlKey = True, shiftKey = False\<rparr>)
     \<lparr>nodes = [''a'', ''a''], connections = [''k'', ''k'']\<rparr>
   = (\<lparr>nodes = [''a'', ''b''], connections = [''k'']\<rparr>,
      Some \<lparr>nodes = [''a'', ''b''], connections = [''k'']\<rparr>)
   \<and> distinct [''a'', ''b''] \<and> distinct [''k'']
   \<and> run [(\<lparr>selectedNodes = None, selectedConnections = None, allowMultiSelect = True\<rparr>,
         NodeClick ''a'' \<lparr>metaKey = False, ctrlKey = False, shiftKey = False\<rparr>),
        (\<lparr>selectedNodes = None, selectedConnections = None, allowMultiSelect = True\<rparr>,
         NodeClick ''b'' \<lparr>metaKey = False, ctrlKey = True, shiftKey = False\<rparr>)]
       initialSelection []
     = (\<lparr>nodes = [''a'', ''b''], connections = []\<rparr>,
        [(\<lparr>selectedNodes = None, selectedConnections = None, allowMultiSelect = True\<rparr>,
          \<lparr>nodes = [''a''], connections = []\<rparr>),
         (\<lparr>selectedNodes = None, selectedConnections = None, allowMultiSelect = True\<rparr>,
          \<lparr>nodes = [''a'', ''b''], connections = []\<rparr>)])"
  using emissions_duplicate_free [where
      p = "\<lparr>selectedNodes = None, selectedConnections = None, allowMultiSelect = True\<rparr>"
      and c = "NodeClick ''b'' \<lparr>metaKey = False, ctrlKey = True, shiftKey = False\<rparr>"
      and st = "\<lparr>nodes = [''a'', ''a''], connections = [''k'', ''k'']\<rparr>"
      and clicks = "[(\<lparr>selectedNodes = None, selectedConnections = None, allowMultiSelect = True\<rparr>,
         NodeClick ''a'' \<lparr>metaKey = False, ctrlKey = False, shiftKey = False\<rparr>),
        (\<lparr>selectedNodes = None, selectedConnections = None, allowMultiSelect = True\<rparr>,
         NodeClick ''b'' \<lparr>metaKey = False, ctrlKey = True, shiftKey = False\<rparr>)]"]
  by (simp add: sel_defs Let_def)

section \<open>Properties of pan and zoom\<close>

subsection \<open>The zoom handle\<close>

lemma num_le_trans: "num_le a b \<Longrightarrow> num_le b c \<Longrightarrow> num_le a c"
  by (cases a; cases b; cases c) auto

lemma num_le_total: "a \<noteq> NaN \<Longrightarrow> b \<noteq> NaN \<Longrightarrow> num_le a b \<or> num_le b a"
  by (cases a; cases b) auto

lemma num_le_refl: "a \<noteq> NaN \<Longrightarrow> num_le a a"
  by (cases a) auto

lemma num_le_NaN: "num_le a b \<Longrightarrow> a \<noteq> NaN \<and> b \<noteq> NaN"
  by (cases a; cases b) auto

lemma zero_le_zero: "isZero a \<Longrightarrow> num_le (Finite s 0 0) a \<and> num_le a (Finite s 0 0)"
  by (cases a) (auto simp: finiteValue_def)

lemma Math_max_bounds:
  assumes "a \<noteq> NaN" "b \<noteq> NaN"
  shows "num_le a (Math_max a b)" "num_le b (Math_max a b)"
    "strictEq (Math_max a b) a \<or> strictEq (Math_max a b) b"
  using assms num_le_total [OF assms] num_le_refl [of a] num_le_refl [of b]
    zero_le_zero [of a "negative a \<and> negative b"] zero_le_zero [of b "negative a \<and> negative b"]
  by (auto simp: Math_max_def num_lt_def strictEq_def)

lemma Math_min_bounds:
  assumes "a \<noteq> NaN" "b \<noteq> NaN"
  shows "num_le (Math_min a b) a" "num_le (Math_min a b) b"
    "strictEq (Math_min a b) a \<or> strictEq (Math_min a b) b"
  using assms num_le_total [OF assms] num_le_refl [of a] num_le_refl [of b]
    zero_le_zero [of a "negative a \<or> negative b"] zero_le_zero [of b "negative a \<or> negative b"]
  by (auto simp: Math_min_def num_lt_def strictEq_def)

lemma clampZoom64_bounds:
  assumes mm: "num_le (minZoom64 p) (maxZoom64 p)" and v: "v \<noteq> NaN"
  shows "num_le (minZoom64 p) (clampZoom64 p v)" "num_le (clampZoom64 p v) (maxZoom64 p)"
proof -
  let ?lo = "minZoom64 p" and ?hi = "maxZoom64 p"
  let ?m = "Math_max ?lo v"
  from num_le_NaN [OF mm] have lo: "?lo \<noteq> NaN" and hi: "?hi \<noteq> NaN" by auto
  note mx = Math_max_bounds [OF lo v]
  from num_le_NaN [OF mx(1)] have m: "?m \<noteq> NaN" by simp
  note mn = Math_min_bounds [OF hi m]
  show "num_le (clampZoom64 p v) ?hi" using mn(1) by (simp add: clampZoom64_def)
  from mn(3) show "num_le ?lo (clampZoom64 p v)"
  proof
    assume "strictEq (Math_min ?hi ?m) ?hi"
    then have "num_le ?hi (Math_min ?hi ?m)" by (simp add: strictEq_def)
    from num_le_trans [OF mm this] show ?thesis by (simp add: clampZoom64_def)
  next
    assume "strictEq (Math_min ?hi ?m) ?m"
    then have "num_le ?m (Math_min ?hi ?m)" by (simp add: strictEq_def)
    from num_le_trans [OF mx(1) this] show ?thesis by (simp add: clampZoom64_def)
  qed
qed

lemma clampZoom64_keeps:
  assumes lo: "num_le (minZoom64 p) v" and hi: "num_le v (maxZoom64 p)"
  shows "strictEq (clampZoom64 p v) v"
proof -
  let ?lo = "minZoom64 p" and ?hi = "maxZoom64 p"
  let ?m = "Math_max ?lo v"
  from num_le_NaN [OF lo] num_le_NaN [OF hi] have n: "?lo \<noteq> NaN" "v \<noteq> NaN" "?hi \<noteq> NaN" by auto
  note mx = Math_max_bounds [OF n(1,2)]
  have mv: "strictEq ?m v"
    using mx(3) mx(2) lo num_le_trans unfolding strictEq_def by blast
  from num_le_NaN [OF mx(1)] have m: "?m \<noteq> NaN" by simp
  note mn = Math_min_bounds [OF n(3) m]
  have "num_le ?m ?hi" using mv hi num_le_trans unfolding strictEq_def by blast
  then have "strictEq (Math_min ?hi ?m) ?m"
    using mn(3) mn(2) num_le_trans unfolding strictEq_def by blast
  with mv show ?thesis unfolding clampZoom64_def strictEq_def using num_le_trans by blast
qed

lemma clampZoom64_NaN: "clampZoom64 p NaN = NaN"
  by (simp add: clampZoom64_def Math_max_def Math_min_def)

lemma getZoom_setZoomInternal64: "getZoom (snd (setZoomInternal64 p v st)) = clampZoom64 p v"
  by (simp add: setZoomInternal64_def getZoom_def Let_def)

lemmas num_defs = round53_def Let_def compute_bitlen finiteValue_def num_lt_def strictEq_def
  Math_max_def Math_min_def num_sub_def

lemmas zoom64_defs = zoomIn_def zoomOut_def setZoom_def getZoom_def setZoomInternal64_def
  clampZoom64_def defaultZoomProps64_def initialZoom64_def

lemma zoomIn_iter:
  "getZoom ((zoomIn p ^^ k) st) = v \<Longrightarrow>
     getZoom ((zoomIn p ^^ Suc k) st) = clampZoom64 p (num_add v (zoomStep64 p))"
  by (simp add: zoomIn_def getZoom_def setZoomInternal64_def Let_def)

lemma default_step:
  "clampZoom64 defaultZoomProps64 (num_add (Finite False 1 0) (zoomStep64 defaultZoomProps64))
     = Finite False 4953959590107546 (- 52)"
  "clampZoom64 defaultZoomProps64 (num_add (Finite False 4953959590107546 (- 52)) (zoomStep64 defaultZoomProps64))
     = Finite False 5404319552844596 (- 52)"
  "clampZoom64 defaultZoomProps64 (num_add (Finite False 5404319552844596 (- 52)) (zoomStep64 defaultZoomProps64))
     = Finite False 5854679515581646 (- 52)"
  "clampZoom64 defaultZoomProps64 (num_add (Finite False 5854679515581646 (- 52)) (zoomStep64 defaultZoomProps64))
     = Finite False 6305039478318696 (- 52)"
  "clampZoom64 defaultZoomProps64 (num_add (Finite False 6305039478318696 (- 52)) (zoomStep64 defaultZoomProps64))
     = Finite False 6755399441055746 (- 52)"
  "clampZoom64 defaultZoomProps64 (num_add (Finite False 6755399441055746 (- 52)) (zoomStep64 defaultZoomProps64))
     = Finite False 7205759403792796 (- 52)"
  "clampZoom64 defaultZoomProps64 (num_add (Finite False 7205759403792796 (- 52)) (zoomStep64 defaultZoomProps64))
     = Finite False 7656119366529846 (- 52)"
  "clampZoom64 defaultZoomProps64 (num_add (Finite False 7656119366529846 (- 52)) (zoomStep64 defaultZoomProps64))
     = Finite False 8106479329266896 (- 52)"
  "clampZoom64 defaultZoomProps64 (num_add (Finite False 8106479329266896 (- 52)) (zoomStep64 defaultZoomProps64))
     = Finite False 8556839292003946 (- 52)"
  "clampZoom64 defaultZoomProps64 (num_add (Finite False 8556839292003946 (- 52)) (zoomStep64 defaultZoomProps64))
     = Finite False 1 1"
  by (simp_all add: clampZoom64_def defaultZoomProps64_def num_defs)

lemma zoomIn_steps:
  shows "getZoom ((zoomIn defaultZoomProps64 ^^ 6) (initialZoom64 None inst))
           = Finite False 7205759403792796 (- 52)"
    and "getZoom ((zoomIn defaultZoomProps64 ^^ 10) (initialZoom64 None inst)) = Finite False 1 1"
proof -
  let ?z = "\<lambda>n. getZoom ((zoomIn defaultZoomProps64 ^^ n) (initialZoom64 None inst))"
  have z0: "?z 0 = Finite False 1 0" by (simp add: getZoom_def initialZoom64_def)
  have z1: "?z (Suc 0) = Finite False 4953959590107546 (- 52)"
    using zoomIn_iter [OF z0] by (simp only: default_step)
  have z2: "?z (Suc (Suc 0)) = Finite False 5404319552844596 (- 52)"
    using zoomIn_iter [OF z1] by (simp only: default_step)
  have z3: "?z (Suc (Suc (Suc 0))) = Finite False 5854679515581646 (- 52)"
    using zoomIn_iter [OF z2] by (simp only: default_step)
  have z4: "?z (Suc (Suc (Suc (Suc 0)))) = Finite False 6305039478318696 (- 52)"
    using zoomIn_iter [OF z3] by (simp only: default_step)
  have z5: "?z (Suc (Suc (Suc (Suc (Suc 0))))) = Finite False 6755399441055746 (- 52)"
    using zoomIn_iter [OF z4] by (simp only: default_step)
  have z6: "?z (Suc (Suc (Suc (Suc (Suc (Suc 0)))))) = Finite False 7205759403792796 (- 52)"
    using zoomIn_iter [OF z5] by (simp only: default_step)
  have z7: "?z (Suc (Suc (Suc (Suc (Suc (Suc (Suc 0))))))) = Finite False 7656119366529846 (- 52)"
    using zoomIn_iter [OF z6] by (simp only: default_step)
  have z8: "?z (Suc (Suc (Suc (Suc (Suc (Suc (Suc (Suc 0)))))))) = Finite False 8106479329266896 (- 52)"
    using zoomIn_iter [OF z7] by (simp only: default_step)
  have z9: "?z (Suc (Suc (Suc (Suc (Suc (Suc (Suc (Suc (Suc 0))))))))) = Finite False 8556839292003946 (- 52)"
    using zoomIn_iter [OF z8] by (simp only: default_step)
  have z10: "?z (Suc (Suc (Suc (Suc (Suc (Suc (Suc (Suc (Suc (Suc 0)))))))))) = Finite False 1 1"
    using zoomIn_iter [OF z9] by (simp only: default_step)
  have n6: "(6::nat) = Suc (Suc (Suc (Suc (Suc (Suc 0)))))" and n10: "(10::nat) = Suc (Suc (Suc (Suc (Suc (Suc (Suc (Suc (Suc (Suc 0)))))))))" by simp_all
  show "?z 6 = Finite False 7205759403792796 (- 52)" unfolding n6 by (rule z6)
  show "?z 10 = Finite False 1 1" unfolding n10 by (rule z10)
qed

text \<open>
  The literals \<open>0.1\<close> and \<open>1.6\<close> denote the binary64 values nearest to them
  (within half a unit in the last place); \<open>0.25\<close>, \<open>2\<close> and \<open>1\<close> are exact.
\<close>

lemma literal_nearest:
  "\<bar>1 / 10 - finiteValue False 7205759403792794 (- 56)\<bar> < 1 / 2 ^ 57"
  "\<bar>16 / 10 - finiteValue False 7205759403792794 (- 52)\<bar> < 1 / 2 ^ 53"
  "finiteValue False 1 (- 2) = 1 / 4" "finiteValue False 1 1 = 2" "finiteValue False 1 0 = 1"
  by (simp_all add: finiteValue_def)

lemma tenth_step_unclamped:
  "num_add (Finite False 8556839292003946 (- 52)) (zoomStep64 defaultZoomProps64)
     = Finite False 4503599627370498 (- 51)"
  by (simp add: defaultZoomProps64_def num_defs)

text \<open>
  C7 (amended).  With \<open>minZoom \<le> maxZoom\<close>, \<open>setZoom\<close> of a value that is not
  \<open>NaN\<close>, and \<open>zoomIn\<close> and \<open>zoomOut\<close> whose stepped value is not \<open>NaN\<close>,
  leave the zoom between the bounds; \<open>setZoom\<close> keeps a value that lies within
  the bounds; \<open>setZoom(NaN)\<close> makes the zoom \<open>NaN\<close>.  From zoom 1 with the
  default bounds and step, six \<open>zoomIn\<close> calls give the binary64 value
  7205759403792796 * 2^(-52), printed 1.6000000000000005, which is below
  \<open>maxZoom\<close>, and ten give exactly \<open>maxZoom = 2\<close>.
\<close>

theorem zoom_clamped:
  assumes "num_le (minZoom64 p) (maxZoom64 p)"
  shows "(v \<noteq> NaN \<longrightarrow>
            num_le (minZoom64 p) (getZoom (setZoom p v st)) \<and>
            num_le (getZoom (setZoom p v st)) (maxZoom64 p))
     \<and> (num_add (getZoom st) (zoomStep64 p) \<noteq> NaN \<longrightarrow>
            num_le (minZoom64 p) (getZoom (zoomIn p st)) \<and>
            num_le (getZoom (zoomIn p st)) (maxZoom64 p))
     \<and> (num_sub (getZoom st) (zoomStep64 p) \<noteq> NaN \<longrightarrow>
            num_le (minZoom64 p) (getZoom (zoomOut p st)) \<and>
            num_le (getZoom (zoomOut p st)) (maxZoom64 p))
     \<and> (num_le (minZoom64 p) v \<and> num_le v (maxZoom64 p) \<longrightarrow>
            strictEq (getZoom (setZoom p v st)) v)
     \<and> getZoom (setZoom p NaN st) = NaN
     \<and> getZoom ((zoomIn defaultZoomProps64 ^^ 6) (initialZoom64 None inst))
           = Finite False 7205759403792796 (- 52)
     \<and> num_lt (Finite False 7205759403792796 (- 52)) (maxZoom64 defaultZoomProps64)
     \<and> getZoom ((zoomIn defaultZoomProps64 ^^ 10) (initialZoom64 None inst))
           = maxZoom64 defaultZoomProps64"
proof -
  have a: "v \<noteq> NaN \<longrightarrow>
            num_le (minZoom64 p) (getZoom (setZoom p v st)) \<and>
            num_le (getZoom (setZoom p v st)) (maxZoom64 p)"
    using clampZoom64_bounds [OF assms, of v]
    by (simp add: setZoom_def getZoom_setZoomInternal64)
  have b: "num_add (getZoom st) (zoomStep64 p) \<noteq> NaN \<longrightarrow>
            num_le (minZoom64 p) (getZoom (zoomIn p st)) \<and>
            num_le (getZoom (zoomIn p st)) (maxZoom64 p)"
    using clampZoom64_bounds [OF assms, of "num_add (zoomRef64 st) (zoomStep64 p)"]
    by (simp add: zoomIn_def getZoom_setZoomInternal64) (simp add: getZoom_def)
  have c: "num_sub (getZoom st) (zoomStep64 p) \<noteq> NaN \<longrightarrow>
            num_le (minZoom64 p) (getZoom (zoomOut p st)) \<and>
            num_le (getZoom (zoomOut p st)) (maxZoom64 p)"
    using clampZoom64_bounds [OF assms, of "num_sub (zoomRef64 st) (zoomStep64 p)"]
    by (simp add: zoomOut_def getZoom_setZoomInternal64) (simp add: getZoom_def)
  have d: "num_le (minZoom64 p) v \<and> num_le v (maxZoom64 p) \<longrightarrow>
            strictEq (getZoom (setZoom p v st)) v"
    using clampZoom64_keeps [of p v] by (simp add: setZoom_def getZoom_setZoomInternal64)
  have e: "getZoom (setZoom p NaN st) = NaN"
    by (simp add: setZoom_def getZoom_setZoomInternal64 clampZoom64_NaN)
  have f: "num_lt (Finite False 7205759403792796 (- 52)) (maxZoom64 defaultZoomProps64)"
    by (simp add: defaultZoomProps64_def num_lt_def finiteValue_def)
  have g: "getZoom ((zoomIn defaultZoomProps64 ^^ 10) (initialZoom64 None inst))
           = maxZoom64 defaultZoomProps64"
    using zoomIn_steps(2) [of inst] by (simp add: defaultZoomProps64_def)
  from a b c d e f g zoomIn_steps(1) [of inst] show ?thesis by blast
qed

theorem zoom_clamped_witness:
  "num_le (minZoom64 defaultZoomProps64) (maxZoom64 defaultZoomProps64)
   \<and> Finite False 3 0 \<noteq> NaN
   \<and> getZoom (setZoom defaultZoomProps64 (Finite False 3 0) (initialZoom64 None None))
       = Finite False 1 1
   \<and> num_le (Finite False 1 (- 2)) (Finite False 1 1)
   \<and> num_le (Finite False 1 1) (Finite False 1 1)
   \<and> getZoom (zoomOut defaultZoomProps64
         (initialZoom64 (Some (Finite False 5404319552844595 (- 54))) None))
       = Finite False 1 (- 2)
   \<and> getZoom (setZoom defaultZoomProps64 (Finite False 3 (- 1)) (initialZoom64 None None))
       = Finite False 3 (- 1)"
  using zoom_clamped [of defaultZoomProps64 "Finite False 3 0" "initialZoom64 None None" None]
  by (simp add: zoom64_defs num_defs)

text \<open>
  \<open>setZoom(NaN)\<close> leaves \<open>NaN\<close>, which is not between the bounds, and the zoom
  after six \<open>zoomIn\<close> calls is not the binary64 value of the literal \<open>1.6\<close>.
\<close>

theorem zoom_binary64_counterexample:
  "getZoom (setZoom defaultZoomProps64 NaN (initialZoom64 None None)) = NaN
   \<and> \<not> num_le (minZoom64 defaultZoomProps64) NaN
   \<and> \<not> num_le NaN (maxZoom64 defaultZoomProps64)
   \<and> getZoom ((zoomIn defaultZoomProps64 ^^ 6) (initialZoom64 None None))
       = Finite False 7205759403792796 (- 52)
   \<and> \<not> strictEq (Finite False 7205759403792796 (- 52)) (Finite False 7205759403792794 (- 52))"
  using zoomIn_steps(1) [of None]
  by (simp add: setZoom_def getZoom_setZoomInternal64 clampZoom64_NaN defaultZoomProps64_def
      strictEq_def finiteValue_def)

subsection \<open>The wheel gesture\<close>


text \<open>With positive, ordered bounds the zoom after a wheel gesture is positive.\<close>

lemma wheel_positive:
  "0 < minZoom p \<Longrightarrow> minZoom p \<le> maxZoom p \<Longrightarrow> wheel_ctrlKey ev \<or> wheel_metaKey ev \<Longrightarrow>
     0 < zoomRef (handleWheel p (Some (l, t)) ev st)"
  by (simp add: handleWheel_def Let_def setZoomInternal_def clampZoom_def)



section \<open>Properties of the engine event handlers\<close>

text \<open>
  C8.  For a connection made by direct manipulation, when \<open>onLinkCreate\<close>
  returns \<open>false\<close> the connection is deleted from the engine with event firing
  off, so the only notification of the handler is the creation call itself;
  for any other result the engine is left as it is.
\<close>

theorem vetoed_connection_deleted:
  assumes "\<not> syncing" and "toDraftConnection info = Some draft" and "onLinkCreate cb = Some f"
  shows "(f draft = Some False \<longrightarrow>
            onConnection cb syncing info True e
              = (e\<lparr>live := removeAll (info_connection info) (live e)\<rparr>, [LinkCreate draft])
            \<and> snd (deleteConnection (info_connection info) False e) = [])
       \<and> (f draft \<noteq> Some False \<longrightarrow>
            onConnection cb syncing info True e = (e, [LinkCreate draft]))"
  using assms by (simp add: onConnection_def deleteConnection_def Let_def)

lemmas draft_defs = toDraftConnection_def endpointNodeId_def falsy_def normalizePort_def
  DEFAULT_PORT_ID_def Let_def

theorem vetoed_connection_deleted_witness:
  "toDraftConnection
      \<lparr>info_connection = 0,
       sourceEndpoint = Some \<lparr>ep_portId = Some ''default'',
          ep_element = Some \<lparr>closest_jr_node = Some \<lparr>data_node_id = Some ''A''\<rparr>\<rparr>\<rparr>,
       targetEndpoint = Some \<lparr>ep_portId = Some ''in'',
          ep_element = Some \<lparr>closest_jr_node = Some \<lparr>data_node_id = Some ''B''\<rparr>\<rparr>\<rparr>\<rparr>
     = Some \<lparr>source = \<lparr>nodeId = ''A'', portId = None\<rparr>, target = \<lparr>nodeId = ''B'', portId = Some ''in''\<rparr>\<rparr>
   \<and> live (fst (onConnection \<lparr>onLinkCreate = Some (\<lambda>d. Some False), onLinkDetached = True\<rparr> False
      \<lparr>info_connection = 0,
       sourceEndpoint = Some \<lparr>ep_portId = Some ''default'',
          ep_element = Some \<lparr>closest_jr_node = Some \<lparr>data_node_id = Some ''A''\<rparr>\<rparr>\<rparr>,
       targetEndpoint = Some \<lparr>ep_portId = Some ''in'',
          ep_element = Some \<lparr>closest_jr_node = Some \<lparr>data_node_id = Some ''B''\<rparr>\<rparr>\<rparr>\<rparr>
      True (emptyEngine\<lparr>live := [0], fresh := 1\<rparr>))) = []
   \<and> snd (onConnection \<lparr>onLinkCreate = Some (\<lambda>d. Some False), onLinkDetached = True\<rparr> False
      \<lparr>info_connection = 0,
       sourceEndpoint = Some \<lparr>ep_portId = Some ''default'',
          ep_element = Some \<lparr>closest_jr_node = Some \<lparr>data_node_id = Some ''A''\<rparr>\<rparr>\<rparr>,
       targetEndpoint = Some \<lparr>ep_portId = Some ''in'',
          ep_element = Some \<lparr>closest_jr_node = Some \<lparr>data_node_id = Some ''B''\<rparr>\<rparr>\<rparr>\<rparr>
      True (emptyEngine\<lparr>live := [0], fresh := 1\<rparr>))
     = [LinkCreate \<lparr>source = \<lparr>nodeId = ''A'', portId = None\<rparr>,
                    target = \<lparr>nodeId = ''B'', portId = Some ''in''\<rparr>\<rparr>]"
proof -
  have d: "toDraftConnection
      \<lparr>info_connection = 0,
       sourceEndpoint = Some \<lparr>ep_portId = Some ''default'',
          ep_element = Some \<lparr>closest_jr_node = Some \<lparr>data_node_id = Some ''A''\<rparr>\<rparr>\<rparr>,
       targetEndpoint = Some \<lparr>ep_portId = Some ''in'',
          ep_element = Some \<lparr>closest_jr_node = Some \<lparr>data_node_id = Some ''B''\<rparr>\<rparr>\<rparr>\<rparr>
     = Some \<lparr>source = \<lparr>nodeId = ''A'', portId = None\<rparr>, target = \<lparr>nodeId = ''B'', portId = Some ''in''\<rparr>\<rparr>"
    by (simp add: draft_defs)
  have n: "\<not> False" by simp
  have c: "onLinkCreate \<lparr>onLinkCreate = Some (\<lambda>d. Some False), onLinkDetached = True\<rparr>
            = Some (\<lambda>d. Some False)" by simp
  show ?thesis
    using vetoed_connection_deleted [OF n d c, of "emptyEngine\<lparr>live := [0], fresh := 1\<rparr>"] d
    by (simp add: emptyEngine_def)
qed


lemma toDraft_no_default:
  "toDraftConnection info = Some d \<Longrightarrow>
     portId (source d) \<noteq> Some DEFAULT_PORT_ID \<and> portId (target d) \<noteq> Some DEFAULT_PORT_ID"
  by (auto simp: toDraftConnection_def Let_def normalizePort_def split: if_splits option.splits prod.splits)

lemma toDraft_unresolved:
  "falsy (endpointNodeId (sourceEndpoint info)) \<or> falsy (endpointNodeId (targetEndpoint info))
    \<Longrightarrow> toDraftConnection info = None"
  by (auto simp: toDraftConnection_def Let_def)

lemma onConnection_notes:
  "n \<in> set (snd (onConnection cb syncing info ev e)) \<Longrightarrow>
     \<exists>d. toDraftConnection info = Some d \<and> draftOf n = d"
  by (auto simp: onConnection_def deleteConnection_def Let_def split: if_splits option.splits)

lemma onConnectionDetached_notes:
  "n \<in> set (onConnectionDetached cb syncing info) \<Longrightarrow>
     \<exists>d. toDraftConnection info = Some d \<and> draftOf n = d"
  by (auto simp: onConnectionDetached_def split: if_splits option.splits)

text \<open>
  C10.  No draft handed to \<open>onLinkCreate\<close> or \<open>onLinkDetached\<close> carries the
  reserved default port identity: a port id \<open>default\<close> becomes an absent port
  id.  When the node identity of either endpoint cannot be resolved, the
  conversion yields nothing and neither handler notifies.
\<close>

theorem drafts_never_default:
  "(\<forall>n \<in> set (snd (onConnection cb syncing info ev e)) \<union> set (onConnectionDetached cb syncing info).
       portId (source (draftOf n)) \<noteq> Some DEFAULT_PORT_ID \<and>
       portId (target (draftOf n)) \<noteq> Some DEFAULT_PORT_ID) \<and>
   (falsy (endpointNodeId (sourceEndpoint info)) \<or> falsy (endpointNodeId (targetEndpoint info)) \<longrightarrow>
       toDraftConnection info = None \<and>
       snd (onConnection cb syncing info ev e) = [] \<and> onConnectionDetached cb syncing info = [])"
proof -
  have a: "\<forall>n \<in> set (snd (onConnection cb syncing info ev e)) \<union> set (onConnectionDetached cb syncing info).
       portId (source (draftOf n)) \<noteq> Some DEFAULT_PORT_ID \<and>
       portId (target (draftOf n)) \<noteq> Some DEFAULT_PORT_ID"
    using onConnection_notes onConnectionDetached_notes toDraft_no_default by blast
  have b: "toDraftConnection info = None \<Longrightarrow>
       snd (onConnection cb syncing info ev e) = [] \<and> onConnectionDetached cb syncing info = []"
    by (simp add: onConnection_def onConnectionDetached_def)
  have c: "falsy (endpointNodeId (sourceEndpoint info)) \<or> falsy (endpointNodeId (targetEndpoint info))
      \<Longrightarrow> toDraftConnection info = None"
    by (rule toDraft_unresolved)
  from a b c show ?thesis by (intro conjI impI) auto
qed


theorem drafts_never_default_witness:
  "snd (onConnection \<lparr>onLinkCreate = Some (\<lambda>d. None), onLinkDetached = True\<rparr> False
      \<lparr>info_connection = 0,
       sourceEndpoint = Some \<lparr>ep_portId = Some ''default'',
          ep_element = Some \<lparr>closest_jr_node = Some \<lparr>data_node_id = Some ''A''\<rparr>\<rparr>\<rparr>,
       targetEndpoint = Some \<lparr>ep_portId = Some ''in'',
          ep_element = Some \<lparr>closest_jr_node = Some \<lparr>data_node_id = Some ''B''\<rparr>\<rparr>\<rparr>\<rparr>
      True emptyEngine)
     = [LinkCreate \<lparr>source = \<lparr>nodeId = ''A'', portId = None\<rparr>,
                    target = \<lparr>nodeId = ''B'', portId = Some ''in''\<rparr>\<rparr>]
   \<and> falsy (endpointNodeId (Some \<lparr>ep_portId = Some ''out'', ep_element = Some \<lparr>closest_jr_node = None\<rparr>\<rparr>))
   \<and> onConnectionDetached \<lparr>onLinkCreate = None, onLinkDetached = True\<rparr> False
      \<lparr>info_connection = 0,
       sourceEndpoint = Some \<lparr>ep_portId = Some ''out'', ep_element = Some \<lparr>closest_jr_node = None\<rparr>\<rparr>,
       targetEndpoint = Some \<lparr>ep_portId = Some ''in'',
          ep_element = Some \<lparr>closest_jr_node = Some \<lparr>data_node_id = Some ''B''\<rparr>\<rparr>\<rparr>\<rparr>
     = []"
  using drafts_never_default [of "\<lparr>onLinkCreate = None, onLinkDetached = True\<rparr>" False
      "\<lparr>info_connection = 0,
       sourceEndpoint = Some \<lparr>ep_portId = Some ''out'', ep_element = Some \<lparr>closest_jr_node = None\<rparr>\<rparr>,
       targetEndpoint = Some \<lparr>ep_portId = Some ''in'',
          ep_element = Some \<lparr>closest_jr_node = Some \<lparr>data_node_id = Some ''B''\<rparr>\<rparr>\<rparr>\<rparr>"
      True emptyEngine]
  by (simp add: draft_defs onConnection_def onConnectionDetached_def)

section \<open>Properties of the connection reconciler\<close>

subsection \<open>The maps built at the start of a pass\<close>

lemma index_fold_fst_sound:
  "map_of (fst (fold (indexConnection e) hs m)) i = Some h \<Longrightarrow>
     (h \<in> set hs \<and> tagOf e h = Some i \<and> i \<noteq> []) \<or> map_of (fst m) i = Some h"
proof (induction hs arbitrary: m)
  case Nil
  then show ?case by simp
next
  case (Cons a hs)
  from Cons.IH [OF Cons.prems [simplified]]
  show ?case
    by (auto simp: indexConnection_def Let_def tagOf_def update_conv' split: option.splits if_splits)
qed

lemma index_fold_fst_complete:
  "(h \<in> set hs \<and> tagOf e h = Some i \<and> i \<noteq> []) \<or> map_of (fst m) i \<noteq> None \<Longrightarrow>
     map_of (fst (fold (indexConnection e) hs m)) i \<noteq> None"
proof (induction hs arbitrary: m)
  case Nil
  then show ?case by simp
next
  case (Cons a hs)
  have "(h \<in> set hs \<and> tagOf e h = Some i \<and> i \<noteq> []) \<or> map_of (fst (indexConnection e a m)) i \<noteq> None"
    using Cons.prems
    by (auto simp: indexConnection_def Let_def tagOf_def update_conv' split: option.splits if_splits)
  from Cons.IH [OF this] show ?case by simp
qed

lemma index_fold_snd_sound:
  "map_of (snd (fold (indexConnection e) hs m)) k = Some h \<Longrightarrow>
     (h \<in> set hs \<and> pairKey (pairOf e h) = k) \<or> map_of (snd m) k = Some h"
proof (induction hs arbitrary: m)
  case Nil
  then show ?case by simp
next
  case (Cons a hs)
  from Cons.IH [OF Cons.prems [simplified]]
  show ?case
    by (auto simp: indexConnection_def Let_def pairOf_def update_conv' split: option.splits if_splits)
qed

lemma index_fold_distinct:
  "distinct (map fst (fst m)) \<Longrightarrow> distinct (map fst (fst (fold (indexConnection e) hs m)))"
proof (induction hs arbitrary: m)
  case Nil
  then show ?case by simp
next
  case (Cons a hs)
  have "distinct (map fst (fst (indexConnection e a m)))"
    using Cons.prems by (auto simp: indexConnection_def Let_def distinct_update split: option.splits)
  from Cons.IH [OF this] show ?case by simp
qed

lemma snapshot_existing_sound:
  "map_of (fst (snapshot e)) i = Some h \<Longrightarrow> h \<in> set (live e) \<and> tagOf e h = Some i \<and> i \<noteq> []"
  using index_fold_fst_sound [of e "live e" "([], [])" i h]
  by (simp add: snapshot_def flattenConnections_def)

lemma snapshot_existing_complete:
  assumes "h \<in> set (live e)" "tagOf e h = Some i" "i \<noteq> []"
    and uniq: "\<forall>a\<in>set (live e). \<forall>b\<in>set (live e). \<not> falsy (tagOf e a) \<and> tagOf e a = tagOf e b \<longrightarrow> a = b"
  shows "map_of (fst (snapshot e)) i = Some h"
proof -
  have "map_of (fst (snapshot e)) i \<noteq> None"
    using index_fold_fst_complete [of h "live e" e i "([], [])"] assms(1-3)
    by (simp add: snapshot_def flattenConnections_def)
  then obtain h' where h': "map_of (fst (snapshot e)) i = Some h'" by auto
  from snapshot_existing_sound [OF this] have "h' \<in> set (live e)" "tagOf e h' = Some i" by auto
  moreover have "\<not> falsy (tagOf e h)" using assms(2,3) by (simp add: falsy_def)
  ultimately have "h = h'" using uniq assms(1,2) by metis
  with h' show ?thesis by simp
qed

lemma snapshot_byUuid_sound:
  "map_of (snd (snapshot e)) k = Some h \<Longrightarrow> h \<in> set (live e) \<and> pairKey (pairOf e h) = k"
  using index_fold_snd_sound [of e "live e" "([], [])" k h]
  by (simp add: snapshot_def flattenConnections_def)

lemma snapshot_distinct: "distinct (map fst (fst (snapshot e)))"
  using index_fold_distinct [of "([], [])" e "live e"]
  by (simp add: snapshot_def flattenConnections_def)

subsection \<open>Finishing a claimed connection\<close>

lemma metadata_tag: "idParam (updateConnectionMetadata sel d c) = Some (conn_id d)"
  by (simp add: updateConnectionMetadata_def Let_def addClass_def removeClass_def split: option.splits)

lemma metadata_uuids: "uuids (updateConnectionMetadata sel d c) = uuids c"
  by (simp add: updateConnectionMetadata_def Let_def addClass_def removeClass_def split: option.splits)

lemma attach_frame: "idParam (attachConnectionHandlers d c) = idParam c" "uuids (attachConnectionHandlers d c) = uuids c"
  by (simp_all add: attachConnectionHandlers_def)

lemma overlay_frame: "idParam (ensureDeleteOverlay d c) = idParam c" "uuids (ensureDeleteOverlay d c) = uuids c"
  by (simp_all add: ensureDeleteOverlay_def Let_def)

lemma finish_engine:
  "live (engine (finishConnection sel d h r)) = live (engine r)"
  "fresh (engine (finishConnection sel d h r)) = fresh (engine r)"
  "accepts (engine (finishConnection sel d h r)) = accepts (engine r)"
  "tagOf (engine (finishConnection sel d h r)) x = (if x = h then Some (conn_id d) else tagOf (engine r) x)"
  "pairOf (engine (finishConnection sel d h r)) x = pairOf (engine r) x"
  "existing (finishConnection sel d h r) = AList.delete (conn_id d) (existing r)"
  "byUuid (finishConnection sel d h r) = byUuid r"
  by (simp_all add: finishConnection_def mutate_def tagOf_def pairOf_def metadata_tag metadata_uuids
      attach_frame overlay_frame)

lemma filter_eq_single: "distinct xs \<Longrightarrow> c \<in> set xs \<Longrightarrow> filter (\<lambda>h. h = c) xs = [c]"
  by (induction xs) (auto simp: filter_empty_conv)

lemma doneIds_snoc:
  "doneIds em (P @ [d]) = (if resolvable em d then insert (conn_id d) (doneIds em P) else doneIds em P)"
  by (auto simp: doneIds_def)

lemma ready_finish:
  assumes r: "ready e0 em P d c st" and res: "resolvable em d" and fr: "conn_id d \<notin> doneIds em P"
  shows "passInv e0 em (P @ [d]) (finishConnection sel d c st)"
proof -
  let ?st = "finishConnection sel d c st"
  let ?i = "conn_id d"
  let ?RP = "doneIds em P"
  have RP': "doneIds em (P @ [d]) = insert ?i ?RP" using res by (simp add: doneIds_snoc)
  note fe = finish_engine [of sel d c st]
  have frame: "inv_frame e0 ?st"
    using r by (simp add: ready_def inv_frame_def wellFormed_def fe)
  have del: "inv_deleted e0 (insert ?i ?RP) ?st"
    using r by (simp add: ready_def inv_deleted_def fe)
  have ex: "inv_existing e0 (insert ?i ?RP) ?st"
    using r by (simp add: ready_def inv_existing_def fe distinct_delete delete_conv')
  have byu: "inv_byUuid e0 ?st"
    using r unfolding ready_def inv_byUuid_def by (simp add: fe)
  have tags: "inv_tags e0 (insert ?i ?RP) ?st"
    using r unfolding ready_def inv_tags_def by (simp add: fe)
  have cl: "inv_claimed em (P @ [d]) ?st"
    unfolding inv_claimed_def
  proof (intro ballI impI)
    fix d' assume d': "d' \<in> set (P @ [d])" and res': "resolvable em d'"
    show "\<exists>h. taggedWith (engine ?st) (conn_id d') = [h] \<and> pairOf (engine ?st) h = resolvedPair d'"
    proof (cases "d' \<in> set P")
      case True
      then have j: "conn_id d' \<in> ?RP" using res' by (auto simp: doneIds_def)
      then have ne: "conn_id d' \<noteq> ?i" using fr by auto
      from r True res' obtain h where h: "taggedWith (engine st) (conn_id d') = [h]"
          "pairOf (engine st) h = resolvedPair d'"
        unfolding ready_def inv_claimed_def by blast
      have "tagOf (engine st) c \<noteq> Some (conn_id d')" using r j unfolding ready_def by blast
      then have "taggedWith (engine ?st) (conn_id d') = taggedWith (engine st) (conn_id d')"
        using ne unfolding taggedWith_def by (auto simp: fe intro: filter_cong)
      with h show ?thesis by (auto simp: fe)
    next
      case False
      with d' have dd: "d' = d" by simp
      have dist: "distinct (live (engine st))" and cin: "c \<in> set (live (engine st))"
        using r by (auto simp: ready_def inv_frame_def wellFormed_def)
      have others: "\<forall>h\<in>set (live (engine st)). h \<noteq> c \<longrightarrow> tagOf (engine st) h \<noteq> Some ?i"
        using r unfolding ready_def by blast
      have "taggedWith (engine ?st) ?i = filter (\<lambda>h. h = c) (live (engine st))"
        unfolding taggedWith_def using others by (auto simp: fe intro: filter_cong)
      then have "taggedWith (engine ?st) ?i = [c]" using filter_eq_single [OF dist cin] by simp
      moreover have "pairOf (engine ?st) c = resolvedPair d" using r by (simp add: ready_def fe)
      ultimately show ?thesis using dd by blast
    qed
  qed
  show ?thesis unfolding passInv_def RP' using frame del ex byu tags cl by blast
qed

subsection \<open>The outcomes of one loop iteration\<close>

lemma isSameUuid_pair: "isSameUuid c (fst p) (snd p) = (uuids c = p)"
  by (auto simp: isSameUuid_def prod_eq_iff)

lemma lookup_obs:
  "fst (lookupById d p r) =
     (case map_of (existing r) (conn_id d) of
        None \<Rightarrow> None
      | Some h \<Rightarrow> if pairOf (engine r) h = p then Some h else None)"
  "live (engine (snd (lookupById d p r))) =
     filter (\<lambda>x. \<not> (map_of (existing r) (conn_id d) = Some x \<and> pairOf (engine r) x \<noteq> p))
       (live (engine r))"
  "objs (engine (snd (lookupById d p r))) = objs (engine r)"
  "fresh (engine (snd (lookupById d p r))) = fresh (engine r)"
  "accepts (engine (snd (lookupById d p r))) = accepts (engine r)"
  "existing (snd (lookupById d p r)) = existing r"
  "byUuid (snd (lookupById d p r)) = byUuid r"
  by (auto simp: lookupById_def isSameUuid_pair pairOf_def deleteConnection_def
      removeAll_filter_not_eq split: option.splits intro: filter_cong)

lemma lookup_tag_pair:
  "tagOf (engine (snd (lookupById d p r))) = tagOf (engine r)"
  "pairOf (engine (snd (lookupById d p r))) = pairOf (engine r)"
  by (simp_all add: tagOf_def pairOf_def lookup_obs fun_eq_iff)

lemma reconcileOne_unresolved:
  "\<not> resolvable em d \<Longrightarrow> reconcileOne sel em d r = r"
  by (auto simp: reconcileOne_def resolvable_def Let_def)

lemma reconcileOne_resolved:
  "resolvable em d \<Longrightarrow>
     reconcileOne sel em d r =
       connectOrAttach sel d (resolvedPair d)
         (reuseByPair (resolvedPair d) (lookupById d (resolvedPair d) r))"
  by (auto simp: reconcileOne_def resolvable_def Let_def)

lemma reconcileOne_idmatch:
  assumes "resolvable em d" "map_of (existing r) (conn_id d) = Some c"
    and "pairOf (engine r) c = resolvedPair d"
  shows "reconcileOne sel em d r = finishConnection sel d c r"
  using assms(2,3)
  by (simp add: reconcileOne_resolved [OF assms(1)] lookupById_def isSameUuid_pair pairOf_def
      reuseByPair_def connectOrAttach_def)

lemma reconcileOne_reuse:
  assumes "resolvable em d"
    and "\<not> (\<exists>c. map_of (existing r) (conn_id d) = Some c \<and> pairOf (engine r) c = resolvedPair d)"
    and "map_of (byUuid r) (pairKey (resolvedPair d)) = Some c"
  shows "reconcileOne sel em d r =
     finishConnection sel d c
       ((snd (lookupById d (resolvedPair d) r))
          \<lparr>byUuid := AList.delete (pairKey (resolvedPair d)) (byUuid r)\<rparr>)"
proof -
  have f: "fst (lookupById d (resolvedPair d) r) = None"
    using assms(2) by (auto simp: lookup_obs split: option.splits)
  show ?thesis using assms(3) f
    by (simp add: reconcileOne_resolved [OF assms(1)] reuseByPair_def connectOrAttach_def
        lookup_obs)
qed

lemma reconcileOne_create:
  assumes "resolvable em d"
    and "\<not> (\<exists>c. map_of (existing r) (conn_id d) = Some c \<and> pairOf (engine r) c = resolvedPair d)"
    and "map_of (byUuid r) (pairKey (resolvedPair d)) = None"
    and "accepts (engine r) (resolvedPair d)"
  shows "reconcileOne sel em d r =
     finishConnection sel d (fresh (engine r))
       ((snd (lookupById d (resolvedPair d) r))
          \<lparr>engine := snd (connect (resolvedPair d) (conn_editable d \<noteq> Some False)
                             (engine (snd (lookupById d (resolvedPair d) r))))\<rparr>)"
proof -
  have f: "fst (lookupById d (resolvedPair d) r) = None"
    using assms(2) by (auto simp: lookup_obs split: option.splits)
  show ?thesis using assms(3,4) f
    by (simp add: reconcileOne_resolved [OF assms(1)] reuseByPair_def connectOrAttach_def
        lookup_obs connect_def)
qed

subsection \<open>A match by identity\<close>

lemma existing_lookup:
  assumes inv: "passInv e0 em P st" and ok: "step_ok e0 em P d"
    and x: "map_of (existing st) (conn_id d) = Some h"
  shows "h \<in> set (live e0)" "tagOf e0 h = Some (conn_id d)" "h \<in> set (live (engine st))"
    "tagOf (engine st) h = Some (conn_id d)" "h < fresh e0" "pairOf (engine st) h = pairOf e0 h"
proof -
  have fr: "conn_id d \<notin> doneIds em P" and ne: "conn_id d \<noteq> []"
    using ok by (auto simp: step_ok_def)
  have "map_of (fst (snapshot e0)) (conn_id d) = Some h"
    using inv x fr unfolding passInv_def inv_existing_def by simp
  from snapshot_existing_sound [OF this]
  show a: "h \<in> set (live e0)" and b: "tagOf e0 h = Some (conn_id d)" by auto
  show c: "h \<in> set (live (engine st))"
  proof (rule ccontr)
    assume "h \<notin> set (live (engine st))"
    with inv a obtain j where "j \<in> doneIds em P" "tagOf e0 h = Some j"
      unfolding passInv_def inv_deleted_def by blast
    with b fr show False by simp
  qed
  have "\<not> falsy (tagOf e0 h)" using b ne by (simp add: falsy_def)
  with inv a b show "tagOf (engine st) h = Some (conn_id d)"
    unfolding passInv_def inv_tags_def by simp
  show d: "h < fresh e0" using ok a by (auto simp: step_ok_def wellFormed_def)
  with inv show "pairOf (engine st) h = pairOf e0 h"
    unfolding passInv_def inv_frame_def by blast
qed

lemma tagged_is_existing:
  assumes inv: "passInv e0 em P st" and ok: "step_ok e0 em P d"
    and h: "h \<in> set (live (engine st))" and t: "tagOf (engine st) h = Some (conn_id d)"
  shows "map_of (existing st) (conn_id d) = Some h"
proof -
  have fr: "conn_id d \<notin> doneIds em P" and ne: "conn_id d \<noteq> []" and u: "uniqueTags e0"
    using ok by (auto simp: step_ok_def)
  from inv h t fr have o: "h < fresh e0" "tagOf e0 h = Some (conn_id d)"
    unfolding passInv_def inv_tags_def by blast+
  with inv h have l: "h \<in> set (live e0)" unfolding passInv_def inv_frame_def by blast
  have "map_of (fst (snapshot e0)) (conn_id d) = Some h"
    using snapshot_existing_complete [OF l o(2) ne] u unfolding uniqueTags_def by blast
  with inv fr show ?thesis unfolding passInv_def inv_existing_def by simp
qed

lemma ready_idmatch:
  assumes inv: "passInv e0 em P st" and ok: "step_ok e0 em P d"
    and x: "map_of (existing st) (conn_id d) = Some c"
    and p: "pairOf (engine st) c = resolvedPair d"
  shows "ready e0 em P d c st"
proof -
  note f = existing_lookup [OF inv ok x]
  have fr: "conn_id d \<notin> doneIds em P" and ne: "conn_id d \<noteq> []"
    using ok by (auto simp: step_ok_def)
  have del: "inv_deleted e0 (insert (conn_id d) (doneIds em P)) st"
    using inv unfolding passInv_def inv_deleted_def by blast
  have a: "\<forall>j\<in>doneIds em P. tagOf (engine st) c \<noteq> Some j" using f(4) fr by auto
  have b: "\<forall>h\<in>set (live (engine st)). h \<noteq> c \<longrightarrow> tagOf (engine st) h \<noteq> Some (conn_id d)"
    using tagged_is_existing [OF inv ok] x by fastforce
  have c: "\<forall>k r. map_of (byUuid st) k = Some r \<and> falsy (tagOf e0 r) \<longrightarrow> r \<noteq> c"
    using f(2) ne by (auto simp: falsy_def)
  show ?thesis
    unfolding ready_def using inv del a b c f(2,3) p unfolding passInv_def by blast
qed

subsection \<open>A missed identity lookup\<close>

lemma miss_live:
  assumes nm: "\<not> (\<exists>c. map_of (existing st) (conn_id d) = Some c \<and> pairOf (engine st) c = p)"
  shows "set (live (engine (snd (lookupById d p st)))) =
           {h \<in> set (live (engine st)). map_of (existing st) (conn_id d) \<noteq> Some h}"
  using nm by (auto simp: lookup_obs)

lemma miss_inv:
  assumes inv: "passInv e0 em P st" and ok: "step_ok e0 em P d"
    and nm: "\<not> (\<exists>c. map_of (existing st) (conn_id d) = Some c \<and> pairOf (engine st) c = p)"
  shows "inv_frame e0 (snd (lookupById d p st))"
    and "inv_deleted e0 (insert (conn_id d) (doneIds em P)) (snd (lookupById d p st))"
    and "inv_existing e0 (doneIds em P) (snd (lookupById d p st))"
    and "inv_byUuid e0 (snd (lookupById d p st))"
    and "inv_tags e0 (doneIds em P) (snd (lookupById d p st))"
    and "inv_claimed em P (snd (lookupById d p st))"
    and "\<forall>h\<in>set (live (engine (snd (lookupById d p st)))).
            tagOf (engine (snd (lookupById d p st))) h \<noteq> Some (conn_id d)"
proof -
  let ?st1 = "snd (lookupById d p st)"
  let ?i = "conn_id d"
  note lv = miss_live [OF nm]
  note tp = lookup_tag_pair [of d p st]
  have fr: "?i \<notin> doneIds em P" using ok by (simp add: step_ok_def)
  have sub: "set (live (engine ?st1)) \<subseteq> set (live (engine st))" using lv by auto
  have dist: "distinct (live (engine ?st1))"
    using inv by (simp add: lookup_obs passInv_def inv_frame_def wellFormed_def)
  show "inv_frame e0 ?st1"
    using inv sub dist unfolding passInv_def inv_frame_def wellFormed_def
    by (simp add: lookup_obs(4,5) tp) blast
  show "inv_deleted e0 (insert ?i (doneIds em P)) ?st1"
    unfolding inv_deleted_def
  proof (intro ballI impI)
    fix h assume h: "h \<in> set (live e0)" "h \<notin> set (live (engine ?st1))"
    show "\<exists>j\<in>insert ?i (doneIds em P). tagOf e0 h = Some j"
    proof (cases "h \<in> set (live (engine st))")
      case True
      with h(2) lv have "map_of (existing st) ?i = Some h" by auto
      from existing_lookup(2) [OF inv ok this] show ?thesis by simp
    next
      case False
      with inv h(1) show ?thesis unfolding passInv_def inv_deleted_def by blast
    qed
  qed
  show "inv_existing e0 (doneIds em P) ?st1"
    using inv unfolding passInv_def inv_existing_def by (simp add: lookup_obs)
  show "inv_byUuid e0 ?st1"
    using inv unfolding passInv_def inv_byUuid_def by (simp add: lookup_obs tp)
  show "inv_tags e0 (doneIds em P) ?st1"
    using inv sub unfolding passInv_def inv_tags_def by (simp add: tp) blast
  show "inv_claimed em P ?st1"
    unfolding inv_claimed_def
  proof (intro ballI impI)
    fix d' assume d': "d' \<in> set P" "resolvable em d'"
    then have j: "conn_id d' \<in> doneIds em P" by (auto simp: doneIds_def)
    from inv d' obtain h where h: "taggedWith (engine st) (conn_id d') = [h]"
        "pairOf (engine st) h = resolvedPair d'"
      unfolding passInv_def inv_claimed_def by blast
    have "\<And>x. x \<in> set (live (engine st)) \<Longrightarrow> tagOf (engine st) x = Some (conn_id d') \<Longrightarrow>
            \<not> (map_of (existing st) ?i = Some x \<and> pairOf (engine st) x \<noteq> p)"
    proof
      fix x assume x: "tagOf (engine st) x = Some (conn_id d')"
        and "map_of (existing st) ?i = Some x \<and> pairOf (engine st) x \<noteq> p"
      then have "map_of (existing st) ?i = Some x" by simp
      from existing_lookup(4) [OF inv ok this] x have "conn_id d' = ?i" by simp
      with j fr show False by simp
    qed
    then have "taggedWith (engine ?st1) (conn_id d') = taggedWith (engine st) (conn_id d')"
      unfolding taggedWith_def by (auto simp: lookup_obs tp intro: filter_cong)
    with h show "\<exists>h. taggedWith (engine ?st1) (conn_id d') = [h] \<and> pairOf (engine ?st1) h = resolvedPair d'"
      by (auto simp: tp)
  qed
  show "\<forall>h\<in>set (live (engine ?st1)). tagOf (engine ?st1) h \<noteq> Some ?i"
  proof
    fix h assume h: "h \<in> set (live (engine ?st1))"
    show "tagOf (engine ?st1) h \<noteq> Some ?i"
    proof
      assume "tagOf (engine ?st1) h = Some ?i"
      then have t: "tagOf (engine st) h = Some ?i" by (simp add: tp)
      from h sub have "h \<in> set (live (engine st))" by auto
      from tagged_is_existing [OF inv ok this t] h lv show False by auto
    qed
  qed
qed

subsection \<open>Reuse by endpoint pair and creation\<close>

lemma no_identity_match:
  assumes inv: "passInv e0 em P st" and ok: "step_ok e0 em P d"
    and nm: "\<not> (\<exists>c. map_of (existing st) (conn_id d) = Some c \<and> pairOf (engine st) c = resolvedPair d)"
  shows "\<not> (\<exists>h\<in>set (live e0). tagOf e0 h = Some (conn_id d) \<and> pairOf e0 h = resolvedPair d)"
proof
  assume "\<exists>h\<in>set (live e0). tagOf e0 h = Some (conn_id d) \<and> pairOf e0 h = resolvedPair d"
  then obtain h where h: "h \<in> set (live e0)" "tagOf e0 h = Some (conn_id d)"
      "pairOf e0 h = resolvedPair d" by blast
  have fr: "conn_id d \<notin> doneIds em P" and ne: "conn_id d \<noteq> []" and u: "uniqueTags e0"
    using ok by (auto simp: step_ok_def)
  have "map_of (fst (snapshot e0)) (conn_id d) = Some h"
    using snapshot_existing_complete [OF h(1,2) ne] u unfolding uniqueTags_def by blast
  with inv fr have x: "map_of (existing st) (conn_id d) = Some h"
    unfolding passInv_def inv_existing_def by simp
  from existing_lookup(6) [OF inv ok x] h(3) have "pairOf (engine st) h = resolvedPair d" by simp
  with x nm show False by blast
qed

lemma ready_reuse:
  assumes inv: "passInv e0 em P st" and ok: "step_ok e0 em P d"
    and nm: "\<not> (\<exists>c. map_of (existing st) (conn_id d) = Some c \<and> pairOf (engine st) c = resolvedPair d)"
    and y: "map_of (byUuid st) (pairKey (resolvedPair d)) = Some c"
  shows "ready e0 em P d c
           ((snd (lookupById d (resolvedPair d) st))
              \<lparr>byUuid := AList.delete (pairKey (resolvedPair d)) (byUuid st)\<rparr>)"
proof -
  let ?p = "resolvedPair d"
  let ?k = "pairKey ?p"
  let ?st1 = "snd (lookupById d ?p st)"
  let ?st2 = "?st1\<lparr>byUuid := AList.delete ?k (byUuid st)\<rparr>"
  let ?i = "conn_id d"
  note m = miss_inv [OF inv ok nm]
  note tp = lookup_tag_pair [of d ?p st]
  have ne: "?i \<noteq> []" and neRP: "[] \<notin> doneIds em P" and wf0: "wellFormed e0"
    and safe: "pairReuseSafe e0 d"
    using ok by (auto simp: step_ok_def)
  have by0: "map_of (snd (snapshot e0)) ?k = Some c"
    and keep: "falsy (tagOf e0 c) \<longrightarrow> tagOf (engine st) c = tagOf e0 c"
    using inv y unfolding passInv_def inv_byUuid_def by blast+
  from snapshot_byUuid_sound [OF by0] have c0: "c \<in> set (live e0)" "pairKey (pairOf e0 c) = ?k"
    by auto
  from safe no_identity_match [OF inv ok nm] c0
  have pc: "pairOf e0 c = ?p" and fc: "falsy (tagOf e0 c)"
    unfolding pairReuseSafe_def by blast+
  have tc: "tagOf (engine st) c = tagOf e0 c" using keep fc by simp
  have cl: "c \<in> set (live (engine st))"
  proof (rule ccontr)
    assume "c \<notin> set (live (engine st))"
    with inv c0(1) obtain j where j: "j \<in> doneIds em P" "tagOf e0 c = Some j"
      unfolding passInv_def inv_deleted_def by blast
    with neRP have "j \<noteq> []" by auto
    with j(2) fc show False by (simp add: falsy_def)
  qed
  have nx: "map_of (existing st) ?i \<noteq> Some c"
  proof
    assume "map_of (existing st) ?i = Some c"
    from existing_lookup(2) [OF inv ok this] fc ne show False by (simp add: falsy_def)
  qed
  have cl1: "c \<in> set (live (engine ?st2))" using cl nx miss_live [OF nm] by simp
  have "c < fresh e0" using wf0 c0(1) by (auto simp: wellFormed_def)
  with inv have "pairOf (engine st) c = pairOf e0 c" unfolding passInv_def inv_frame_def by blast
  then have pc2: "pairOf (engine ?st2) c = ?p" using pc by (simp add: tp)
  have a: "\<forall>j\<in>doneIds em P. tagOf (engine ?st2) c \<noteq> Some j"
    using tc fc neRP by (auto simp: tp falsy_def)
  have b: "\<forall>h\<in>set (live (engine ?st2)). h \<noteq> c \<longrightarrow> tagOf (engine ?st2) h \<noteq> Some ?i"
    using m(7) by simp
  have cc: "\<forall>k r. map_of (byUuid ?st2) k = Some r \<and> falsy (tagOf e0 r) \<longrightarrow> r \<noteq> c"
  proof (intro allI impI)
    fix k r assume kr: "map_of (byUuid ?st2) k = Some r \<and> falsy (tagOf e0 r)"
    then have k: "k \<noteq> ?k" and "map_of (byUuid st) k = Some r"
      by (auto simp: delete_conv' split: if_splits)
    with inv have "map_of (snd (snapshot e0)) k = Some r" unfolding passInv_def inv_byUuid_def by blast
    from snapshot_byUuid_sound [OF this] have "pairKey (pairOf e0 r) = k" by simp
    with k c0(2) show "r \<noteq> c" by auto
  qed
  have d: "c \<in> set (live e0) \<and> \<not> falsy (tagOf e0 c) \<longrightarrow> tagOf e0 c = Some ?i" using fc by simp
  have f1: "inv_frame e0 ?st2" using m(1) by (simp add: inv_frame_def)
  have f2: "inv_deleted e0 (insert ?i (doneIds em P)) ?st2" using m(2) by (simp add: inv_deleted_def)
  have f3: "inv_existing e0 (doneIds em P) ?st2" using m(3) by (simp add: inv_existing_def)
  have f4: "inv_byUuid e0 ?st2"
    using m(4) unfolding inv_byUuid_def by (auto simp: lookup_obs delete_conv' split: if_splits)
  have f5: "inv_tags e0 (doneIds em P) ?st2" using m(5) by (simp add: inv_tags_def)
  have f6: "inv_claimed em P ?st2" using m(6) by (simp add: inv_claimed_def)
  show ?thesis unfolding ready_def using f1 f2 f3 f4 f5 f6 cl1 pc2 a b cc d by blast
qed

lemma connect_obs:
  assumes "accepts e p"
  shows "live (snd (connect p det e)) = live e @ [fresh e]"
    and "fresh (snd (connect p det e)) = Suc (fresh e)"
    and "accepts (snd (connect p det e)) = accepts e"
    and "tagOf (snd (connect p det e)) x = (if x = fresh e then None else tagOf e x)"
    and "pairOf (snd (connect p det e)) x = (if x = fresh e then p else pairOf e x)"
  using assms by (simp_all add: connect_def tagOf_def pairOf_def newConnection_def)

lemma ready_create:
  assumes inv: "passInv e0 em P st" and ok: "step_ok e0 em P d"
    and nm: "\<not> (\<exists>c. map_of (existing st) (conn_id d) = Some c \<and> pairOf (engine st) c = resolvedPair d)"
  shows "ready e0 em P d (fresh (engine st))
           ((snd (lookupById d (resolvedPair d) st))
              \<lparr>engine := snd (connect (resolvedPair d) det
                                 (engine (snd (lookupById d (resolvedPair d) st))))\<rparr>)"
proof -
  let ?p = "resolvedPair d"
  let ?st1 = "snd (lookupById d ?p st)"
  let ?e2 = "snd (connect ?p det (engine ?st1))"
  let ?st2 = "?st1\<lparr>engine := ?e2\<rparr>"
  let ?i = "conn_id d"
  let ?c = "fresh (engine st)"
  note m = miss_inv [OF inv ok nm]
  have wf0: "wellFormed e0" using ok by (simp add: step_ok_def)
  have acc: "accepts (engine ?st1) ?p"
    using ok m(1) by (simp add: step_ok_def inv_frame_def)
  note co = connect_obs [OF acc, of det, unfolded lookup_obs(4)]
  have below: "\<forall>h\<in>set (live (engine ?st1)). h < ?c"
    using m(1) by (simp add: inv_frame_def wellFormed_def lookup_obs(4))
  have ge: "fresh e0 \<le> ?c" using m(1) by (simp add: inv_frame_def lookup_obs(4))
  have old: "\<forall>h\<in>set (live e0). h \<noteq> ?c" using wf0 ge by (auto simp: wellFormed_def)
  have f1: "inv_frame e0 ?st2"
    using m(1) below ge unfolding inv_frame_def wellFormed_def
    by (auto simp: co lookup_obs(4))
  have f2: "inv_deleted e0 (insert ?i (doneIds em P)) ?st2"
    using m(2) unfolding inv_deleted_def by (simp add: co)
  have f3: "inv_existing e0 (doneIds em P) ?st2" using m(3) by (simp add: inv_existing_def)
  have f4: "inv_byUuid e0 ?st2"
    unfolding inv_byUuid_def
  proof (intro allI impI)
    fix k r assume "map_of (byUuid ?st2) k = Some r"
    then have kr: "map_of (byUuid ?st1) k = Some r" by simp
    with m(4) have s: "map_of (snd (snapshot e0)) k = Some r"
      and t: "falsy (tagOf e0 r) \<longrightarrow> tagOf (engine ?st1) r = tagOf e0 r"
      unfolding inv_byUuid_def by blast+
    from snapshot_byUuid_sound [OF s] old have "r \<noteq> ?c" by blast
    with s t show "map_of (snd (snapshot e0)) k = Some r \<and>
        (falsy (tagOf e0 r) \<longrightarrow> tagOf (engine ?st2) r = tagOf e0 r)"
      by (simp add: co)
  qed
  have f5: "inv_tags e0 (doneIds em P) ?st2"
    using m(5) old unfolding inv_tags_def by (auto simp: co)
  have f6: "inv_claimed em P ?st2"
    unfolding inv_claimed_def
  proof (intro ballI impI)
    fix d' assume d': "d' \<in> set P" "resolvable em d'"
    with m(6) obtain h where h: "taggedWith (engine ?st1) (conn_id d') = [h]"
        "pairOf (engine ?st1) h = resolvedPair d'"
      unfolding inv_claimed_def by blast
    have "h \<in> set (taggedWith (engine ?st1) (conn_id d'))" using h(1) by simp
    then have "h \<in> set (live (engine ?st1))"
      unfolding taggedWith_def by simp
    with below have hc: "h \<noteq> ?c" by blast
    have "taggedWith ?e2 (conn_id d') = taggedWith (engine ?st1) (conn_id d')"
      unfolding taggedWith_def using below by (auto simp: co intro: filter_cong)
    with h hc show "\<exists>h. taggedWith (engine ?st2) (conn_id d') = [h] \<and>
        pairOf (engine ?st2) h = resolvedPair d'"
      by (auto simp: co)
  qed
  have a: "\<forall>h\<in>set (live (engine ?st2)). h \<noteq> ?c \<longrightarrow> tagOf (engine ?st2) h \<noteq> Some ?i"
    using m(7) by (auto simp: co)
  have b: "\<forall>k r. map_of (byUuid ?st2) k = Some r \<and> falsy (tagOf e0 r) \<longrightarrow> r \<noteq> ?c"
  proof (intro allI impI)
    fix k r assume "map_of (byUuid ?st2) k = Some r \<and> falsy (tagOf e0 r)"
    then have "map_of (byUuid ?st1) k = Some r" by simp
    with m(4) have "map_of (snd (snapshot e0)) k = Some r" unfolding inv_byUuid_def by blast
    from snapshot_byUuid_sound [OF this] old show "r \<noteq> ?c" by blast
  qed
  have c: "?c \<in> set (live e0) \<and> \<not> falsy (tagOf e0 ?c) \<longrightarrow> tagOf e0 ?c = Some ?i"
    using old by blast
  show ?thesis unfolding ready_def using f1 f2 f3 f4 f5 f6 a b c by (simp add: co)
qed

subsection \<open>The loop and the final sweep\<close>

lemma reconcileOne_inv:
  assumes inv: "passInv e0 em P st" and ok: "resolvable em d \<Longrightarrow> step_ok e0 em P d"
  shows "passInv e0 em (P @ [d]) (reconcileOne sel em d st)"
proof (cases "resolvable em d")
  case False
  then have "doneIds em (P @ [d]) = doneIds em P" by (simp add: doneIds_snoc)
  moreover have "inv_claimed em (P @ [d]) st"
    using inv False unfolding passInv_def inv_claimed_def by auto
  ultimately show ?thesis
    using inv False unfolding passInv_def by (simp add: reconcileOne_unresolved)
next
  case True
  note sk = ok [OF True]
  have fr: "conn_id d \<notin> doneIds em P" using sk by (simp add: step_ok_def)
  show ?thesis
  proof (cases "\<exists>c. map_of (existing st) (conn_id d) = Some c \<and> pairOf (engine st) c = resolvedPair d")
    case idm: True
    then obtain c where c: "map_of (existing st) (conn_id d) = Some c"
        "pairOf (engine st) c = resolvedPair d" by blast
    from ready_finish [OF ready_idmatch [OF inv sk c] True fr]
    show ?thesis by (simp add: reconcileOne_idmatch [OF True c])
  next
    case nm: False
    show ?thesis
    proof (cases "map_of (byUuid st) (pairKey (resolvedPair d))")
      case (Some c)
      from ready_finish [OF ready_reuse [OF inv sk nm Some] True fr]
      show ?thesis by (simp add: reconcileOne_reuse [OF True nm Some])
    next
      case None
      have acc: "accepts (engine st) (resolvedPair d)"
        using inv sk by (simp add: passInv_def inv_frame_def step_ok_def)
      from ready_finish [OF ready_create [OF inv sk nm] True fr]
      show ?thesis by (simp add: reconcileOne_create [OF True nm None acc])
    qed
  qed
qed

lemma fold_reconcileOne_inv:
  assumes "passInv e0 em P st"
    and "wellFormed e0" and "uniqueTags e0"
    and "distinct (map conn_id (P @ ds))" and "[] \<notin> conn_id ` set (P @ ds)"
    and "\<forall>d\<in>set ds. resolvable em d \<longrightarrow> pairReuseSafe e0 d \<and> accepts e0 (resolvedPair d)"
  shows "passInv e0 em (P @ ds) (fold (reconcileOne sel em) ds st)"
  using assms
proof (induction ds arbitrary: P st)
  case Nil
  then show ?case by simp
next
  case (Cons d ds)
  have a: "conn_id d \<notin> doneIds em P" using Cons.prems(4) by (auto simp: doneIds_def)
  have b: "[] \<notin> doneIds em P" using Cons.prems(5) by (auto simp: doneIds_def)
  have c: "conn_id d \<noteq> []" using Cons.prems(5) by auto
  have ok: "resolvable em d \<Longrightarrow> step_ok e0 em P d"
    using a b c Cons.prems(2,3,6) by (simp add: step_ok_def)
  have inv': "passInv e0 em (P @ [d]) (reconcileOne sel em d st)"
    by (rule reconcileOne_inv [OF Cons.prems(1) ok])
  have "passInv e0 em ((P @ [d]) @ ds) (fold (reconcileOne sel em) ds (reconcileOne sel em d st))"
    using Cons.prems by (intro Cons.IH [OF inv']) simp_all
  then show ?case by simp
qed

lemma startPass_inv:
  assumes "wellFormed e0"
  shows "passInv e0 em [] (startPass e0 cm)"
  using assms
  by (auto simp: passInv_def inv_frame_def inv_deleted_def inv_existing_def inv_byUuid_def
      inv_tags_def inv_claimed_def startPass_def doneIds_def snapshot_distinct wellFormed_def)

lemma sweepOne_obs:
  "live (engine (sweepOne x r)) = filter (\<lambda>h. h \<noteq> snd x) (live (engine r))"
  "objs (engine (sweepOne x r)) = objs (engine r)"
  "fresh (engine (sweepOne x r)) = fresh (engine r)"
  by (auto simp: sweepOne_def deleteConnection_def removeAll_filter_not_eq intro: filter_cong)

lemma fold_sweepOne_live:
  "live (engine (fold sweepOne xs r)) = filter (\<lambda>h. h \<notin> snd ` set xs) (live (engine r))"
proof (induction xs arbitrary: r)
  case Nil
  then show ?case by simp
next
  case (Cons x xs)
  have "live (engine (fold sweepOne (x # xs) r))
      = filter (\<lambda>h. h \<notin> snd ` set xs) (filter (\<lambda>h. h \<noteq> snd x) (live (engine r)))"
    by (simp add: Cons.IH sweepOne_obs)
  also have "\<dots> = filter (\<lambda>h. h \<notin> snd ` set (x # xs)) (live (engine r))"
    by (auto intro: filter_cong)
  finally show ?case .
qed

lemma fold_sweepOne_objs:
  "objs (engine (fold sweepOne xs r)) = objs (engine r)"
  by (induction xs arbitrary: r) (simp_all add: sweepOne_obs)

subsection \<open>Convergence\<close>

lemmas rec_defs = reconcileConnections_def startPass_def snapshot_def indexConnection_def
  flattenConnections_def reconcileOne_def resolvedPair_def getEndpointUuid_def effectivePort_def
  lookupById_def reuseByPair_def connectOrAttach_def finishConnection_def sweep_def sweepOne_def
  deleteConnection_def connect_def mutate_def isSameUuid_def pairKey_def newConnection_def
  updateConnectionMetadata_def attachConnectionHandlers_def ensureDeleteOverlay_def
  addClass_def removeClass_def Set_add_def Set_delete_def emptyEngine_def Let_def

lemmas sample_defs = drawnEngine_def declared_def sampleEndpoints_def

lemmas obs_defs = tagOf_def pairOf_def taggedWith_def wellFormed_def resolvable_def
  uniqueTags_def pairReuseSafe_def falsy_def

text \<open>
  C1 (amended).  Let the live handles be distinct, the truthy tags of the live
  connections pairwise distinct, the declared identities distinct and
  non-empty, let the engine accept every resolvable declared pair, and let
  endpoint-pair reuse be safe for every resolvable declared connection.  Then
  after the pass every declared connection with resolvable endpoints has
  exactly one live connection tagged with its identity, spanning its resolved
  pair; every live connection that carries a tag carries the identity of a
  resolvable declared connection; and a connection that carried no tag before
  the pass is still live.
\<close>

theorem reconcile_converges:
  assumes wf: "wellFormed e" and tags: "uniqueTags e"
    and ids: "distinct (map conn_id L)" and ne: "[] \<notin> conn_id ` set L"
    and safe: "\<forall>d\<in>set L. resolvable em d \<longrightarrow> pairReuseSafe e d \<and> accepts e (resolvedPair d)"
  shows "distinct (live (engine (reconcileConnections sel em L e cm))) \<and>
     (\<forall>d\<in>set L. resolvable em d \<longrightarrow>
        (\<exists>h. taggedWith (engine (reconcileConnections sel em L e cm)) (conn_id d) = [h] \<and>
             pairOf (engine (reconcileConnections sel em L e cm)) h = resolvedPair d)) \<and>
     (\<forall>h\<in>set (live (engine (reconcileConnections sel em L e cm))).
        \<not> falsy (tagOf (engine (reconcileConnections sel em L e cm)) h) \<longrightarrow>
        (\<exists>d\<in>set L. resolvable em d \<and>
           tagOf (engine (reconcileConnections sel em L e cm)) h = Some (conn_id d))) \<and>
     (\<forall>h\<in>set (live e). falsy (tagOf e h) \<longrightarrow>
        h \<in> set (live (engine (reconcileConnections sel em L e cm))))"
proof -
  let ?stF = "fold (reconcileOne sel em) L (startPass e cm)"
  let ?e' = "engine (reconcileConnections sel em L e cm)"
  let ?S = "snd ` set (existing ?stF)"
  have inv: "passInv e em L ?stF"
    using fold_reconcileOne_inv [OF startPass_inv [OF wf, of em cm] wf tags, where ds = L and sel = sel]
      ids ne safe
    by simp
  have live': "live ?e' = filter (\<lambda>h. h \<notin> ?S) (live (engine ?stF))"
    by (simp add: reconcileConnections_def sweep_def fold_sweepOne_live)
  have tag': "tagOf ?e' = tagOf (engine ?stF)"
    by (simp add: reconcileConnections_def sweep_def fold_sweepOne_objs tagOf_def fun_eq_iff)
  have pair': "pairOf ?e' = pairOf (engine ?stF)"
    by (simp add: reconcileConnections_def sweep_def fold_sweepOne_objs pairOf_def fun_eq_iff)
  have swept: "\<And>x. x \<in> ?S \<Longrightarrow>
      \<exists>j. j \<notin> doneIds em L \<and> j \<noteq> [] \<and> x \<in> set (live e) \<and> tagOf e x = Some j \<and>
          tagOf (engine ?stF) x = Some j"
  proof -
    fix x assume "x \<in> ?S"
    then obtain j where "(j, x) \<in> set (existing ?stF)" by auto
    moreover have "distinct (map fst (existing ?stF))"
      using inv unfolding passInv_def inv_existing_def by blast
    ultimately have m: "map_of (existing ?stF) j = Some x" by simp
    with inv have j: "j \<notin> doneIds em L" and s: "map_of (fst (snapshot e)) j = Some x"
      unfolding passInv_def inv_existing_def by (metis option.distinct(1))+
    from snapshot_existing_sound [OF s] have x: "x \<in> set (live e)" "tagOf e x = Some j" "j \<noteq> []"
      by auto
    then have "\<not> falsy (tagOf e x)" by (simp add: falsy_def)
    with inv x have "tagOf (engine ?stF) x = Some j" unfolding passInv_def inv_tags_def by simp
    with j x show "\<exists>j. j \<notin> doneIds em L \<and> j \<noteq> [] \<and> x \<in> set (live e) \<and> tagOf e x = Some j \<and>
          tagOf (engine ?stF) x = Some j" by blast
  qed
  have c1: "distinct (live ?e')"
    using inv unfolding passInv_def inv_frame_def wellFormed_def by (simp add: live')
  have c2: "\<forall>d\<in>set L. resolvable em d \<longrightarrow>
      (\<exists>h. taggedWith ?e' (conn_id d) = [h] \<and> pairOf ?e' h = resolvedPair d)"
  proof (intro ballI impI)
    fix d assume d: "d \<in> set L" "resolvable em d"
    then have i: "conn_id d \<in> doneIds em L" by (auto simp: doneIds_def)
    from inv d obtain h where h: "taggedWith (engine ?stF) (conn_id d) = [h]"
        "pairOf (engine ?stF) h = resolvedPair d"
      unfolding passInv_def inv_claimed_def by blast
    have "\<And>x. tagOf (engine ?stF) x = Some (conn_id d) \<Longrightarrow> x \<notin> ?S"
      using swept i by fastforce
    then have "taggedWith ?e' (conn_id d) = taggedWith (engine ?stF) (conn_id d)"
      unfolding taggedWith_def by (auto simp: live' tag' intro: filter_cong)
    with h show "\<exists>h. taggedWith ?e' (conn_id d) = [h] \<and> pairOf ?e' h = resolvedPair d"
      by (auto simp: pair')
  qed
  have c3: "\<forall>h\<in>set (live ?e'). \<not> falsy (tagOf ?e' h) \<longrightarrow>
      (\<exists>d\<in>set L. resolvable em d \<and> tagOf ?e' h = Some (conn_id d))"
  proof (intro ballI impI)
    fix h assume h: "h \<in> set (live ?e')" and t: "\<not> falsy (tagOf ?e' h)"
    from h have hl: "h \<in> set (live (engine ?stF))" and hs: "h \<notin> ?S" by (auto simp: live')
    from t obtain j where j: "tagOf (engine ?stF) h = Some j" "j \<noteq> []"
      by (auto simp: tag' falsy_def split: option.splits)
    have "j \<in> doneIds em L"
    proof (rule ccontr)
      assume nj: "j \<notin> doneIds em L"
      with inv hl j(1) have o: "h < fresh e" "tagOf e h = Some j"
        unfolding passInv_def inv_tags_def by blast+
      with inv hl have "h \<in> set (live e)" unfolding passInv_def inv_frame_def by blast
      from snapshot_existing_complete [OF this o(2) j(2)] tags
      have "map_of (fst (snapshot e)) j = Some h" unfolding uniqueTags_def by blast
      with inv nj have "map_of (existing ?stF) j = Some h"
        unfolding passInv_def inv_existing_def by simp
      then have "(j, h) \<in> set (existing ?stF)" by (rule map_of_SomeD)
      then have "h \<in> ?S" by force
      with hs show False by simp
    qed
    then obtain d where "d \<in> set L" "resolvable em d" "conn_id d = j" by (auto simp: doneIds_def)
    with j(1) show "\<exists>d\<in>set L. resolvable em d \<and> tagOf ?e' h = Some (conn_id d)"
      by (auto simp: tag')
  qed
  have c4: "\<forall>h\<in>set (live e). falsy (tagOf e h) \<longrightarrow> h \<in> set (live ?e')"
  proof (intro ballI impI)
    fix h assume h: "h \<in> set (live e)" and f: "falsy (tagOf e h)"
    have "h \<in> set (live (engine ?stF))"
    proof (rule ccontr)
      assume "h \<notin> set (live (engine ?stF))"
      with inv h obtain j where "j \<in> doneIds em L" "tagOf e h = Some j"
        unfolding passInv_def inv_deleted_def by blast
      moreover from this ne have "j \<noteq> []" by (force simp: doneIds_def)
      ultimately show False using f by (simp add: falsy_def)
    qed
    moreover have "h \<notin> ?S"
    proof
      assume "h \<in> ?S"
      from swept [OF this] f show False by (auto simp: falsy_def)
    qed
    ultimately show "h \<in> set (live ?e')" by (simp add: live')
  qed
  from c1 c2 c3 c4 show ?thesis by blast
qed

theorem reconcile_converges_witness:
  "wellFormed drawnEngine \<and> uniqueTags drawnEngine \<and> distinct (map conn_id [declared ''e1''])
   \<and> [] \<notin> conn_id ` set [declared ''e1'']
   \<and> resolvable sampleEndpoints (declared ''e1'') \<and> pairReuseSafe drawnEngine (declared ''e1'')
   \<and> accepts drawnEngine (resolvedPair (declared ''e1''))
   \<and> live (engine (reconcileConnections [] sampleEndpoints [declared ''e1''] drawnEngine [])) = [0]
   \<and> taggedWith (engine (reconcileConnections [] sampleEndpoints [declared ''e1''] drawnEngine [])) ''e1'' = [0]
   \<and> pairOf (engine (reconcileConnections [] sampleEndpoints [declared ''e1''] drawnEngine [])) 0
       = (''A:out'', ''B:in'')"
  using reconcile_converges [of drawnEngine "[declared ''e1'']" sampleEndpoints "[]" "[]"]
  by (simp add: sample_defs obs_defs rec_defs)

text \<open>
  A connection drawn by direct manipulation carries no tag.  With an empty
  declared list no declared connection claims it, and it is live after the pass.
\<close>

theorem untagged_connection_kept:
  "live drawnEngine = [0] \<and> tagOf drawnEngine 0 = None
   \<and> live (engine (reconcileConnections [] sampleEndpoints [] drawnEngine [])) = [0]"
  by (simp add: sample_defs obs_defs rec_defs)

lemma firstPass_state:
  "live (engine firstPass) = [0]" "fresh (engine firstPass) = 1"
  "idParam (objs (engine firstPass) 0) = Some ''e1''"
  "uuids (objs (engine firstPass) 0) = (''A:out'', ''B:in'')"
  "connectionMap firstPass = [(''e1'', 0)]" "accepts (engine firstPass) = (\<lambda>p. True)"
  by (simp_all add: firstPass_def sample_defs obs_defs rec_defs)

text \<open>
  C3.  After a first pass for \<open>e1\<close> the live connection 0 is tagged \<open>e1\<close>.
  The next declared list holds only \<open>e2\<close> between the same endpoints.  The
  identity lookup finds nothing, endpoint-pair reuse claims connection 0
  although it is tagged with another identity, and the final sweep over
  \<open>existing\<close> deletes it under its old tag: no live connection is left for
  \<open>e2\<close>.
\<close>

theorem tagged_connection_reused:
  "live (engine firstPass) = [0] \<and> tagOf (engine firstPass) 0 = Some ''e1''
   \<and> pairOf (engine firstPass) 0 = resolvedPair (declared ''e2'')
   \<and> resolvable sampleEndpoints (declared ''e2'')
   \<and> fst (lookupById (declared ''e2'') (resolvedPair (declared ''e2''))
            (startPass (engine firstPass) (connectionMap firstPass))) = None
   \<and> fst (reuseByPair (resolvedPair (declared ''e2''))
            (lookupById (declared ''e2'') (resolvedPair (declared ''e2''))
               (startPass (engine firstPass) (connectionMap firstPass)))) = Some 0
   \<and> live (engine (reconcileConnections [] sampleEndpoints [declared ''e2'']
                      (engine firstPass) (connectionMap firstPass))) = []"
  by (simp add: firstPass_state obs_defs declared_def sampleEndpoints_def
      reconcileConnections_def startPass_def snapshot_def indexConnection_def
      flattenConnections_def reconcileOne_def resolvedPair_def getEndpointUuid_def
      effectivePort_def lookupById_def reuseByPair_def connectOrAttach_def finishConnection_def
      sweep_def sweepOne_def deleteConnection_def connect_def mutate_def isSameUuid_def
      pairKey_def Let_def)

end
